theory Spec2Isabelle
  imports Main
begin

section \<open>Bytes and buffers\<close>

text \<open>
  A Node.js Buffer is modelled as a list of bytes (\<open>char\<close> is the 8-bit byte type).
  Reading \<open>buf[i]\<close> out of range gives \<open>undefined\<close> in JavaScript: \<open>None\<close> here.
  \<open>buf.slice(start, end)\<close> clamps both ends to the buffer.
\<close>

type_synonym buffer = "char list"

definition byte_at :: "buffer \<Rightarrow> int \<Rightarrow> char option" where
  "byte_at buf i = (if 0 \<le> i \<and> i < int (length buf) then Some (buf ! nat i) else None)"

definition slice :: "buffer \<Rightarrow> nat \<Rightarrow> nat \<Rightarrow> buffer" where
  "slice buf start endPos = take (endPos - start) (drop start buf)"

text \<open>The table \<open>CHARS\<close> of lib/multipart\_byte\_parser.js.\<close>

definition CHARS_A :: nat where "CHARS_A = of_char (CHR ''a'')"
definition CHARS_Z :: nat where "CHARS_Z = of_char (CHR ''z'')"
definition CHARS_CR :: char where "CHARS_CR = CHR 0x0D"
definition CHARS_LF :: char where "CHARS_LF = CHR 0x0A"
definition CHARS_COLON :: char where "CHARS_COLON = CHR '':''"
definition CHARS_SPACE :: char where "CHARS_SPACE = CHR '' ''"
definition CHARS_HYPHEN :: char where "CHARS_HYPHEN = CHR ''-''"

definition CHARS_lower :: "char \<Rightarrow> nat" where
  "CHARS_lower byte = or (of_char byte) 0x20"

text \<open>lodash \<open>_.inRange(number, start, end)\<close>: from \<open>start\<close> up to, but not including, \<open>end\<close>.\<close>

definition inRange :: "nat \<Rightarrow> nat \<Rightarrow> nat \<Rightarrow> bool" where
  "inRange number start endPos = (min start endPos \<le> number \<and> number < max start endPos)"

section \<open>MultipartByteParserState\<close>

datatype STATES =
    INITIALIZED | BOUNDARY | HEADER_NAME_START | HEADER_NAME | HEADER_VALUE_START
  | HEADER_VALUE | HEADER_VALUE_END | HEADERS_END | PART_DATA_START | PART_DATA | END

text \<open>
  The names of the events of the byte parser. The three span events also name the
  position markers kept in the state.
\<close>

datatype evname =
  partBegin | headerName | headerValue | headersEnd | partData | partEnd | endOfMessage

datatype event = Signal evname | Data evname buffer

text \<open>
  The errors of lib/multipart_error.js, and \<open>StreamError\<close> for an error raised by a
  stream of the platform, which is not one of them.
\<close>

datatype MultipartError =
    BadContentType | ParseError string | UnsupportedEncoding
  | TooManyParts | PartTooLarge | MessageTooLarge | Unexpected string
  | StreamError string

definition FLAGS_PART_BOUNDARY :: int where "FLAGS_PART_BOUNDARY = 1"
definition FLAGS_FINAL_BOUNDARY :: int where "FLAGS_FINAL_BOUNDARY = 2"

record ParserState =
  state :: STATES
  error :: bool
  flags :: int
  index :: int
  lookbehind :: buffer
  markers :: "evname \<rightharpoonup> nat"

definition newParserState :: "nat \<Rightarrow> ParserState" where
  "newParserState boundaryLength =
     \<lparr> state = INITIALIZED, error = False, flags = 0, index = 0,
       lookbehind = replicate (boundaryLength + 8) (CHR 0x00), markers = Map.empty \<rparr>"

definition hasErrored :: "ParserState \<Rightarrow> bool" where
  "hasErrored s = error s"

definition isPartBoundary :: "ParserState \<Rightarrow> bool" where
  "isPartBoundary s = (and (flags s) FLAGS_PART_BOUNDARY \<noteq> 0)"

definition isFinalBoundary :: "ParserState \<Rightarrow> bool" where
  "isFinalBoundary s = (and (flags s) FLAGS_FINAL_BOUNDARY \<noteq> 0)"

definition mark :: "evname \<Rightarrow> nat \<Rightarrow> ParserState \<Rightarrow> ParserState" where
  "mark marker pos s = s\<lparr>markers := (markers s)(marker \<mapsto> pos)\<rparr>"

definition clear :: "evname \<Rightarrow> ParserState \<Rightarrow> ParserState" where
  "clear marker s = s\<lparr>markers := (markers s)(marker := None)\<rparr>"

definition getMarker :: "evname \<Rightarrow> ParserState \<Rightarrow> nat option" where
  "getMarker marker s = markers s marker"

definition setErrored :: "ParserState \<Rightarrow> ParserState" where
  "setErrored s = s\<lparr>error := True\<rparr>"

definition updateState :: "STATES \<Rightarrow> ParserState \<Rightarrow> ParserState" where
  "updateState st s = s\<lparr>state := st\<rparr>"

definition setFlags :: "int \<Rightarrow> ParserState \<Rightarrow> ParserState" where
  "setFlags f s = s\<lparr>flags := or (flags s) f\<rparr>"

definition unsetFlags :: "int \<Rightarrow> ParserState \<Rightarrow> ParserState" where
  "unsetFlags f s = s\<lparr>flags := and (flags s) (not f)\<rparr>"

definition resetFlags :: "ParserState \<Rightarrow> ParserState" where
  "resetFlags s = s\<lparr>flags := 0\<rparr>"

section \<open>MultipartByteParser\<close>

text \<open>
  \<open>_constructBoundary\<close>: the configured delimiter prefixed with CR LF and two hyphens,
  for a delimiter of ASCII characters (what a MIME boundary is made of), whose length
  as a string is its number of bytes. The parser below is the one built from a
  delimiter string, so its boundary buffer always has at least four bytes.
\<close>

definition constructBoundary :: "string \<Rightarrow> buffer" where
  "constructBoundary boundary = [CHARS_CR, CHARS_LF, CHARS_HYPHEN, CHARS_HYPHEN] @ boundary"

definition getBoundaryChars :: "buffer \<Rightarrow> char set" where
  "getBoundaryChars boundary = set boundary"

definition newByteParser :: "string \<Rightarrow> ParserState" where
  "newByteParser boundary = newParserState (length (constructBoundary boundary))"

text \<open>
  The local function \<open>emit\<close> of \<open>_transform\<close>. Called without a buffer it emits a
  bare signal (\<open>Signal\<close>, written in place below). Called with one (\<open>emitSpan\<close>), the
  span is emitted only when the marker is set and lies strictly before \<open>end\<close>; only then
  is the marker moved to 0 (\<open>resetMarker\<close>) or cleared.
\<close>

definition emitSpan ::
  "evname \<Rightarrow> buffer \<Rightarrow> nat option \<Rightarrow> nat \<Rightarrow> bool \<Rightarrow> ParserState \<Rightarrow> ParserState \<times> event list" where
  "emitSpan ev buf start endPos resetMarker s =
     (case start of
        None \<Rightarrow> (s, [])
      | Some b \<Rightarrow>
          if b < endPos
          then ((if resetMarker then mark ev 0 s else clear ev s), [Data ev (slice buf b endPos)])
          else (s, []))"

text \<open>
  One pass of the body of the \<open>for\<close> loop either leaves the \<open>switch\<close> (\<open>Next\<close>, with the
  position the loop continues at, its increment included) or returns from
  \<open>_transform\<close> through \<open>done\<close> (\<open>Return\<close>, with the error handed to \<open>next\<close>).
\<close>

datatype step_result =
    Next ParserState nat "event list"
  | Return ParserState "event list" "MultipartError option"

definition done_error :: "string \<Rightarrow> ParserState \<Rightarrow> event list \<Rightarrow> step_result" where
  "done_error msg s evs = Return (setErrored s) evs (Some (ParseError msg))"

definition msg_boundary :: string where
  "msg_boundary = ''Multipart message boundary not followed by -- or <CR><LF>!''"
definition msg_empty_name :: string where
  "msg_empty_name = ''Empty header name!''"
definition msg_invalid_name :: string where
  "msg_invalid_name = ''Invalid character found parsing header field name!''"
definition msg_value_end :: string where
  "msg_value_end = ''Header value not followed by <CR><LF>!''"
definition msg_headers_end :: string where
  "msg_headers_end = ''Headers not followed by <CR><LF>!''"
definition msg_unexpected_end :: string where
  "msg_unexpected_end = ''Unexpected end of multipart message!''"

text \<open>\<open>case STATES.BOUNDARY\<close>.\<close>

definition case_BOUNDARY :: "buffer \<Rightarrow> nat \<Rightarrow> char \<Rightarrow> ParserState \<Rightarrow> step_result" where
  "case_BOUNDARY B curPos curByte s =
     (if index s = int (length B) - 2 then
        (if curByte = CHARS_HYPHEN then
           Next ((setFlags FLAGS_FINAL_BOUNDARY s)\<lparr>index := index s + 1\<rparr>) (curPos + 1) []
         else if curByte = CHARS_CR then
           Next (s\<lparr>index := index s + 1\<rparr>) (curPos + 1) []
         else done_error msg_boundary s [])
      else if index s = int (length B) - 1 then
        (if isFinalBoundary s \<and> curByte = CHARS_HYPHEN then
           Next (updateState END (resetFlags s)) (curPos + 1) []
         else if \<not> isFinalBoundary s \<and> curByte = CHARS_LF then
           Next (updateState HEADER_NAME_START s) (curPos + 1) [Signal partBegin]
         else done_error msg_boundary s [])
      else
        (let s1 = (if Some curByte \<noteq> byte_at B (index s + 2) then s\<lparr>index := - 2\<rparr> else s);
             s2 = (if Some curByte = byte_at B (index s1 + 2)
                   then s1\<lparr>index := index s1 + 1\<rparr> else s1)
         in Next s2 (curPos + 1) []))"

text \<open>\<open>case STATES.HEADER_NAME\<close>.\<close>

definition case_HEADER_NAME :: "buffer \<Rightarrow> nat \<Rightarrow> char \<Rightarrow> ParserState \<Rightarrow> step_result" where
  "case_HEADER_NAME chunk curPos curByte s =
     (let lowByte = CHARS_lower curByte in
      if inRange lowByte CHARS_A CHARS_Z \<or> curByte = CHARS_HYPHEN then
        Next (s\<lparr>index := index s + 1\<rparr>) (curPos + 1) []
      else if curByte = CHARS_COLON then
        (if index s \<noteq> 0 then
           (let (s1, evs) = emitSpan headerName chunk (getMarker headerName s) curPos False s
            in Next (updateState HEADER_VALUE_START s1) (curPos + 1) evs)
         else done_error msg_empty_name s [])
      else if curByte = CHARS_CR then
        Next (updateState HEADERS_END (clear headerName s)) (curPos + 1) []
      else done_error msg_invalid_name s [])"

text \<open>\<open>case STATES.HEADER_VALUE\<close>.\<close>

definition case_HEADER_VALUE :: "buffer \<Rightarrow> nat \<Rightarrow> char \<Rightarrow> ParserState \<Rightarrow> step_result" where
  "case_HEADER_VALUE chunk curPos curByte s =
     (if curByte = CHARS_CR then
        (let (s1, evs) = emitSpan headerValue chunk (getMarker headerValue s) curPos False s
         in Next (updateState HEADER_VALUE_END s1) (curPos + 1) evs)
      else Next s (curPos + 1) [])"

text \<open>
  The fast scan of \<open>case STATES.PART_DATA\<close>: jump ahead by the boundary length while the
  byte under the cursor is no boundary character.
\<close>

function skip :: "string \<Rightarrow> buffer \<Rightarrow> nat \<Rightarrow> nat" where
  "skip boundary chunk curPos =
     (if curPos < length chunk \<and> chunk ! curPos \<notin> getBoundaryChars (constructBoundary boundary)
      then skip boundary chunk (curPos + length (constructBoundary boundary))
      else curPos)"
  by pat_completeness auto
termination
  by (relation "measure (\<lambda>(boundary, chunk, curPos). length chunk - curPos)")
     (auto simp: constructBoundary_def)

declare skip.simps [simp del]

text \<open>
  \<open>case STATES.PART_DATA\<close>, in three pieces: the cursor after the fast scan, the
  comparison of the current byte with the boundary (the first component of its
  result says whether the \<open>switch\<close> was left by the \<open>break\<close> that follows a part
  boundary), and the lookbehind bookkeeping that ends the case.
\<close>

definition pd_cursor :: "string \<Rightarrow> buffer \<Rightarrow> nat \<Rightarrow> ParserState \<Rightarrow> nat" where
  "pd_cursor boundary chunk curPos s =
     (let n = length (constructBoundary boundary) in
      if index s = 0 then skip boundary chunk (curPos + (n - 1)) - (n - 1) else curPos)"

definition pd_match ::
  "buffer \<Rightarrow> buffer \<Rightarrow> nat \<Rightarrow> char option \<Rightarrow> ParserState \<Rightarrow> bool \<times> ParserState \<times> event list" where
  "pd_match B chunk curPos curByte s =
     (let L = int (length B) in
      if index s < L then
        (if curByte = byte_at B (index s) then
           (let (sa, ea) = (if index s = 0
                            then emitSpan partData chunk (getMarker partData s) curPos False s
                            else (s, []))
            in (False, sa\<lparr>index := index sa + 1\<rparr>, ea))
         else (False, s\<lparr>index := 0\<rparr>, []))
      else if index s = L then
        (let sa = s\<lparr>index := index s + 1\<rparr> in
         if curByte = Some CHARS_CR then (False, setFlags FLAGS_PART_BOUNDARY sa, [])
         else if curByte = Some CHARS_HYPHEN then (False, setFlags FLAGS_FINAL_BOUNDARY sa, [])
         else (False, sa\<lparr>index := 0\<rparr>, []))
      else if index s - 1 = L then
        (if isPartBoundary s then
           (let sa = s\<lparr>index := 0\<rparr> in
            if curByte = Some CHARS_LF then
              (True, updateState HEADER_NAME_START (unsetFlags FLAGS_PART_BOUNDARY sa),
               [Signal partEnd, Signal partBegin])
            else (False, sa, []))
         else if isFinalBoundary s then
           (if curByte = Some CHARS_HYPHEN
            then (False, resetFlags (updateState END s), [Signal partEnd])
            else (False, s\<lparr>index := 0\<rparr>, []))
         else (False, s\<lparr>index := 0\<rparr>, []))
      else (False, s, []))"

definition pd_finish ::
  "nat \<Rightarrow> char option \<Rightarrow> int \<Rightarrow> bool \<times> ParserState \<times> event list \<Rightarrow> step_result" where
  "pd_finish curPos curByte prevIndex r =
     (case r of (brk, s1, evs1) \<Rightarrow>
        if brk then Next s1 (curPos + 1) evs1
        else if index s1 > 0 then
          Next (s1\<lparr>lookbehind := (lookbehind s1)
                    [nat (index s1 - 1) := (case curByte of Some c \<Rightarrow> c | None \<Rightarrow> CHR 0x00)]\<rparr>)
               (curPos + 1) evs1
        else if prevIndex > 0 then
          (let (s2, evs2) = emitSpan partData (lookbehind s1) (Some 0) (nat prevIndex) False s1
           in Next (mark partData curPos s2) curPos (evs1 @ evs2))
        else Next s1 (curPos + 1) evs1)"

definition case_PART_DATA :: "string \<Rightarrow> buffer \<Rightarrow> nat \<Rightarrow> ParserState \<Rightarrow> step_result" where
  "case_PART_DATA boundary chunk curPos0 s =
     (let prevIndex = index s;
          curPos = pd_cursor boundary chunk curPos0 s;
          curByte = byte_at chunk (int curPos)
      in pd_finish curPos curByte prevIndex
           (pd_match (constructBoundary boundary) chunk curPos curByte s))"

text \<open>
  The \<open>switch\<close> on the state, with its deliberate fall-throughs
  (\<open>INITIALIZED\<close> into \<open>BOUNDARY\<close>, \<open>HEADER_NAME_START\<close> into \<open>HEADER_NAME\<close>,
  \<open>HEADER_VALUE_START\<close> into \<open>HEADER_VALUE\<close>, \<open>PART_DATA_START\<close> into \<open>PART_DATA\<close>).
\<close>

definition step :: "string \<Rightarrow> buffer \<Rightarrow> nat \<Rightarrow> ParserState \<Rightarrow> step_result" where
  "step boundary chunk curPos s =
     (let curByte = chunk ! curPos in
      case state s of
        INITIALIZED \<Rightarrow>
          case_BOUNDARY (constructBoundary boundary) curPos curByte
            (updateState BOUNDARY (s\<lparr>index := 0\<rparr>))
      | BOUNDARY \<Rightarrow> case_BOUNDARY (constructBoundary boundary) curPos curByte s
      | HEADER_NAME_START \<Rightarrow>
          case_HEADER_NAME chunk curPos curByte
            (updateState HEADER_NAME (mark headerName curPos (s\<lparr>index := 0\<rparr>)))
      | HEADER_NAME \<Rightarrow> case_HEADER_NAME chunk curPos curByte s
      | HEADER_VALUE_START \<Rightarrow>
          (if curByte = CHARS_SPACE then Next s (curPos + 1) []
           else case_HEADER_VALUE chunk curPos curByte
                  (updateState HEADER_VALUE (mark headerValue curPos s)))
      | HEADER_VALUE \<Rightarrow> case_HEADER_VALUE chunk curPos curByte s
      | HEADER_VALUE_END \<Rightarrow>
          (if curByte \<noteq> CHARS_LF then done_error msg_value_end s []
           else Next (updateState HEADER_NAME_START s) (curPos + 1) [])
      | HEADERS_END \<Rightarrow>
          (if curByte \<noteq> CHARS_LF then done_error msg_headers_end s []
           else Next (updateState PART_DATA_START s) (curPos + 1) [Signal headersEnd])
      | PART_DATA_START \<Rightarrow>
          case_PART_DATA boundary chunk curPos (updateState PART_DATA (mark partData curPos s))
      | PART_DATA \<Rightarrow> case_PART_DATA boundary chunk curPos s
      | END \<Rightarrow> Return s [] None)"

text \<open>
  The \<open>for\<close> loop of \<open>_transform\<close>. A pass either moves the cursor forward or, when
  a boundary candidate fails, stays on the same byte with the match index back at 0.
\<close>

definition candidate :: "ParserState \<Rightarrow> bool" where
  "candidate s = ((state s = PART_DATA \<or> state s = PART_DATA_START) \<and> index s > 0)"

definition loop_measure :: "buffer \<Rightarrow> nat \<Rightarrow> ParserState \<Rightarrow> nat" where
  "loop_measure chunk curPos s = 2 * (length chunk - curPos) + (if candidate s then 1 else 0)"

lemma skip_ge: "curPos \<le> skip boundary chunk curPos"
proof (induction boundary chunk curPos rule: skip.induct)
  case (1 boundary chunk curPos)
  show ?case
  proof (cases "curPos < length chunk \<and> chunk ! curPos \<notin> getBoundaryChars (constructBoundary boundary)")
    case True
    then have "skip boundary chunk curPos
               = skip boundary chunk (curPos + length (constructBoundary boundary))"
      by (subst skip.simps) simp
    with 1 True show ?thesis by simp
  next
    case False
    then have "skip boundary chunk curPos = curPos" by (subst skip.simps) auto
    then show ?thesis by simp
  qed
qed

lemma emitSpan_index [simp]: "index (fst (emitSpan ev buf start endPos r s)) = index s"
  by (simp add: emitSpan_def mark_def clear_def split: option.splits)

lemma emitSpan_state [simp]: "state (fst (emitSpan ev buf start endPos r s)) = state s"
  by (simp add: emitSpan_def mark_def clear_def split: option.splits)

lemma emitSpan_error [simp]: "error (fst (emitSpan ev buf start endPos r s)) = error s"
  by (simp add: emitSpan_def mark_def clear_def split: option.splits)

lemma pd_cursor_ge: "curPos \<le> pd_cursor boundary chunk curPos s"
proof -
  let ?n = "length (constructBoundary boundary) - 1"
  have "curPos + ?n \<le> skip boundary chunk (curPos + ?n)" by (rule skip_ge)
  then have "curPos \<le> skip boundary chunk (curPos + ?n) - ?n" by arith
  then show ?thesis by (simp add: pd_cursor_def Let_def)
qed

lemma pd_cursor_candidate: "index s \<noteq> 0 \<Longrightarrow> pd_cursor boundary chunk curPos s = curPos"
  by (simp add: pd_cursor_def)

lemma pd_finish_progress:
  assumes "pd_finish curPos curByte prevIndex r = Next s' pos' evs"
  shows "pos' = curPos + 1 \<or> (pos' = curPos \<and> prevIndex > 0 \<and> index s' \<le> 0)"
proof (cases r)
  case (fields brk s1 evs1)
  obtain s2 evs2 where e: "emitSpan partData (lookbehind s1) (Some 0) (nat prevIndex) False s1 = (s2, evs2)"
    by fastforce
  have "index (fst (emitSpan partData (lookbehind s1) (Some 0) (nat prevIndex) False s1)) = index s1"
    by (rule emitSpan_index)
  with e have i: "index s2 = index s1" by simp
  show ?thesis
    using assms fields e i by (auto simp: pd_finish_def mark_def split: if_splits)
qed

lemma case_PART_DATA_progress:
  assumes "case_PART_DATA boundary chunk curPos s = Next s' pos' evs"
  shows "curPos < pos' \<or> (pos' = curPos \<and> index s > 0 \<and> index s' \<le> 0)"
proof -
  let ?c = "pd_cursor boundary chunk curPos s"
  from assms have "pd_finish ?c (byte_at chunk (int ?c)) (index s)
      (pd_match (constructBoundary boundary) chunk ?c (byte_at chunk (int ?c)) s) = Next s' pos' evs"
    by (simp add: case_PART_DATA_def Let_def)
  then have "pos' = ?c + 1 \<or> (pos' = ?c \<and> index s > 0 \<and> index s' \<le> 0)"
    by (rule pd_finish_progress)
  then show ?thesis
    using pd_cursor_ge[of curPos boundary chunk s] pd_cursor_candidate[of s boundary chunk curPos]
    by auto
qed

lemma case_BOUNDARY_progress:
  "case_BOUNDARY B curPos curByte s = Next s' pos' evs \<Longrightarrow> pos' = curPos + 1"
  by (simp add: case_BOUNDARY_def Let_def done_error_def split: if_splits)

lemma case_HEADER_NAME_progress:
  "case_HEADER_NAME chunk curPos curByte s = Next s' pos' evs \<Longrightarrow> pos' = curPos + 1"
  by (simp add: case_HEADER_NAME_def Let_def done_error_def split: if_splits prod.splits)

lemma case_HEADER_VALUE_progress:
  "case_HEADER_VALUE chunk curPos curByte s = Next s' pos' evs \<Longrightarrow> pos' = curPos + 1"
  by (simp add: case_HEADER_VALUE_def Let_def done_error_def split: if_splits prod.splits)

lemma step_progress:
  assumes "step boundary chunk curPos s = Next s' pos' evs"
  shows "curPos < pos' \<or> (pos' = curPos \<and> candidate s \<and> \<not> candidate s')"
proof (cases "state s")
  case PART_DATA
  with assms have "case_PART_DATA boundary chunk curPos s = Next s' pos' evs"
    by (simp add: step_def)
  from case_PART_DATA_progress[OF this] PART_DATA show ?thesis
    by (auto simp: candidate_def)
next
  case PART_DATA_START
  with assms have "case_PART_DATA boundary chunk curPos
      (updateState PART_DATA (mark partData curPos s)) = Next s' pos' evs"
    by (simp add: step_def)
  from case_PART_DATA_progress[OF this] PART_DATA_START show ?thesis
    by (auto simp: candidate_def updateState_def mark_def)
qed (use assms in \<open>auto simp: step_def done_error_def Let_def split: if_splits
      dest: case_BOUNDARY_progress case_HEADER_NAME_progress case_HEADER_VALUE_progress\<close>)

text \<open>
  After the loop: a span still open at the end of the chunk is emitted up to the cursor
  and its marker moved to offset 0 of the next chunk.
\<close>

definition trailing :: "buffer \<Rightarrow> nat \<Rightarrow> ParserState \<Rightarrow> ParserState \<times> event list" where
  "trailing chunk curPos s =
     (let (s1, e1) = emitSpan headerName chunk (getMarker headerName s) curPos True s;
          (s2, e2) = emitSpan headerValue chunk (getMarker headerValue s1) curPos True s1;
          (s3, e3) = (if state s2 \<noteq> PART_DATA \<or> index s2 = 0
                      then emitSpan partData chunk (getMarker partData s2) curPos True s2
                      else (s2, []))
      in (s3, e1 @ e2 @ e3))"

function loop ::
  "string \<Rightarrow> buffer \<Rightarrow> nat \<Rightarrow> ParserState \<Rightarrow> event list
     \<Rightarrow> ParserState \<times> event list \<times> MultipartError option" where
  "loop boundary chunk curPos s evs =
     (if curPos < length chunk then
        (case step boundary chunk curPos s of
           Next s' pos' evs' \<Rightarrow> loop boundary chunk pos' s' (evs @ evs')
         | Return s' evs' err \<Rightarrow> (s', evs @ evs', err))
      else (let (s', evs') = trailing chunk curPos s in (s', evs @ evs', None)))"
  by pat_completeness auto
termination
  by (relation "measure (\<lambda>(boundary, chunk, curPos, s, evs). loop_measure chunk curPos s)")
     (auto dest!: step_progress simp: loop_measure_def)

declare loop.simps [simp del]

text \<open>\<open>_transform\<close>: one chunk. An errored parser leaves at once.\<close>

definition transform ::
  "string \<Rightarrow> buffer \<Rightarrow> ParserState \<Rightarrow> ParserState \<times> event list \<times> MultipartError option" where
  "transform boundary chunk s =
     (if hasErrored s then (s, [], None) else loop boundary chunk 0 s [])"

text \<open>The handler of \<open>finish\<close> installed by the constructor: the input has ended.\<close>

definition on_finish :: "ParserState \<Rightarrow> ParserState \<times> event list \<times> MultipartError option" where
  "on_finish s =
     (if state s \<noteq> END then (setErrored s, [], Some (ParseError msg_unexpected_end))
      else (s, [Signal endOfMessage], None))"

text \<open>
  A session of the byte parser: the chunks written in order, then the end of the input.
  The result is the final state, the events emitted in order and the errors raised.
\<close>

fun errs :: "MultipartError option \<Rightarrow> MultipartError list" where
  "errs None = []"
| "errs (Some e) = [e]"

fun feed ::
  "string \<Rightarrow> ParserState \<Rightarrow> buffer list \<Rightarrow> ParserState \<times> event list \<times> MultipartError list" where
  "feed boundary s [] = (s, [], [])"
| "feed boundary s (chunk # chunks) =
     (case transform boundary chunk s of (s1, e1, r1) \<Rightarrow>
        (case feed boundary s1 chunks of (s2, e2, r2) \<Rightarrow> (s2, e1 @ e2, errs r1 @ r2)))"

definition parse :: "string \<Rightarrow> buffer list \<Rightarrow> ParserState \<times> event list \<times> MultipartError list" where
  "parse boundary chunks =
     (case feed boundary (newByteParser boundary) chunks of (s1, e1, r1) \<Rightarrow>
        (case on_finish s1 of (s2, e2, r2) \<Rightarrow> (s2, e1 @ e2, r1 @ errs r2)))"

text \<open>The line end of the wire format.\<close>

definition CRLF :: string where
  "CRLF = [CHARS_CR, CHARS_LF]"

section \<open>Part\<close>

text \<open>
  JavaScript strings are kept as the bytes of their UTF-8 encoding, so that
  \<open>chunk.toString('utf8')\<close> and writing a string to a stream leave the bytes as they
  are. A value that may be \<open>null\<close> or \<open>undefined\<close> is an \<open>option\<close>; \<open>IS_DEFINED\<close> is
  \<open>(\<noteq>) None\<close>. \<open>or_null\<close> is \<open>x || null\<close> on strings: the empty string is falsy.
\<close>

datatype json =
  JNull | JBool bool | JNumber int | JString string | JArray "json list"
  | JObject "(string \<times> json) list"

datatype PartType = FIELD | OBJECT | STREAM

definition or_null :: "string option \<Rightarrow> string option" where
  "or_null x = (case x of None \<Rightarrow> None | Some v \<Rightarrow> if v = [] then None else Some v)"

definition value_or_null :: "json option \<Rightarrow> json option" where
  "value_or_null x =
     (case x of
        None \<Rightarrow> None
      | Some v \<Rightarrow>
          if v = JNull \<or> v = JBool False \<or> v = JNumber 0 \<or> v = JString [] then None
          else Some v)"

text \<open>\<open>haystack.indexOf(needle) >= 0\<close>.\<close>

fun indexOf_found :: "string \<Rightarrow> string \<Rightarrow> bool" where
  "indexOf_found needle [] = (needle = [])"
| "indexOf_found needle (c # cs) = (take (length needle) (c # cs) = needle \<or> indexOf_found needle cs)"

text \<open>
  The options of the constructor \<open>Part(opts)\<close>, and the part: its properties and,
  for the pass-through stream it is, the buffers written to it and whether it was ended.
\<close>

record PartOpts =
  opt_type :: "PartType option"
  opt_value :: "json option"
  opt_name :: "string option"
  opt_filename :: "string option"
  opt_transferEncoding :: "string option"
  opt_contentType :: "string option"
  opt_contentId :: "string option"
  opt_headers :: "(string \<times> string) list option"

record Part =
  part_type :: PartType
  part_value :: "json option"
  part_name :: "string option"
  part_filename :: "string option"
  part_transferEncoding :: "string option"
  part_contentType :: "string option"
  part_contentId :: "string option"
  part_headers :: "(string \<times> string) list"
  part_written :: "buffer list"
  part_ended :: bool

definition Part_new :: "PartOpts \<Rightarrow> Part" where
  "Part_new opts =
     \<lparr> part_type =
         (case opt_type opts of
            Some t \<Rightarrow> t
          | None \<Rightarrow>
              if (case opt_contentType opts of Some ct \<Rightarrow> indexOf_found ''/json'' ct | None \<Rightarrow> False)
              then OBJECT
              else if opt_name opts \<noteq> None \<and> opt_filename opts = None then FIELD
              else STREAM),
       part_value = value_or_null (opt_value opts),
       part_name = or_null (opt_name opts),
       part_filename = or_null (opt_filename opts),
       part_transferEncoding = or_null (opt_transferEncoding opts),
       part_contentType = or_null (opt_contentType opts),
       part_contentId = or_null (opt_contentId opts),
       part_headers = (case opt_headers opts of Some h \<Rightarrow> h | None \<Rightarrow> []),
       part_written = [],
       part_ended = False \<rparr>"

text \<open>
  Reading a property of a part by its name. lib/part.js defines the string-valued
  accessors \<open>name\<close>, \<open>filename\<close>, \<open>transferEncoding\<close>, \<open>contentType\<close> and \<open>contentId\<close>;
  any other name reads as \<open>undefined\<close>.
\<close>

definition Part_get :: "string \<Rightarrow> Part \<Rightarrow> string option" where
  "Part_get prop p =
     (if prop = ''name'' then part_name p
      else if prop = ''filename'' then part_filename p
      else if prop = ''transferEncoding'' then part_transferEncoding p
      else if prop = ''contentType'' then part_contentType p
      else if prop = ''contentId'' then part_contentId p
      else None)"

text \<open>
  \<open>part.write(buf)\<close> and \<open>part.end(buf)\<close> on the pass-through stream that a part is,
  each with whether the stream emits \<open>error\<close>. A stream that has ended refuses a write:
  it emits the error \<open>write after end\<close> (the writable streams of the Node.js versions
  that have \<open>new Buffer\<close> emit it during the call). \<open>end(buf)\<close> writes the buffer, if there
  is one, and ends the stream; ending a stream twice does nothing more.

  A buffer is a value here. In the code a fragment is a view of the chunk, or of the
  lookbehind buffer of the byte parser, whose first bytes are a prefix of the
  delimiter at every moment; the two agree as long as the caller leaves its chunks
  alone and the body does not contain the delimiter itself.
\<close>

definition Part_write :: "buffer \<Rightarrow> Part \<Rightarrow> Part \<times> bool" where
  "Part_write buf p =
     (if part_ended p then (p, True) else (p\<lparr>part_written := part_written p @ [buf]\<rparr>, False))"

definition Part_end :: "buffer option \<Rightarrow> Part \<Rightarrow> Part \<times> bool" where
  "Part_end buf p =
     (case buf of
        None \<Rightarrow> (p\<lparr>part_ended := True\<rparr>, False)
      | Some b \<Rightarrow> (case Part_write b p of (p', err) \<Rightarrow> (p'\<lparr>part_ended := True\<rparr>, err)))"

text \<open>
  A headers object: an association list in insertion order; assigning to a name that is
  present replaces its value in place. (Header names are not array indices.)
\<close>

definition set_header :: "string \<Rightarrow> string \<Rightarrow> (string \<times> string) list \<Rightarrow> (string \<times> string) list" where
  "set_header k v hs =
     (if k \<in> fst ` set hs then map (\<lambda>(k', v'). if k' = k then (k', v) else (k', v')) hs
      else hs @ [(k, v)])"

text \<open>
  \<open>new Buffer(text, 'base64')\<close> is the decoder of the Node.js runtime, not code of this
  repository. It is modelled as the runtime documents and implements it: characters
  outside the base64 alphabets (standard and URL-safe) are skipped, decoding stops at
  the first \<open>=\<close>, every four sextets give three bytes, and a final group of two or
  three sextets gives one or two bytes.
\<close>

definition unbase64 :: "char \<Rightarrow> nat option" where
  "unbase64 c =
     (let n = (of_char c :: nat) in
      if 65 \<le> n \<and> n \<le> 90 then Some (n - 65)
      else if 97 \<le> n \<and> n \<le> 122 then Some (n - 71)
      else if 48 \<le> n \<and> n \<le> 57 then Some (n + 4)
      else if c = CHR ''+'' \<or> c = CHR ''-'' then Some 62
      else if c = CHR ''/'' \<or> c = CHR ''_'' then Some 63
      else None)"

fun sextets_bytes :: "nat list \<Rightarrow> buffer" where
  "sextets_bytes (a # b # c # d # rest) =
     char_of (a * 4 + b div 16) # char_of ((b mod 16) * 16 + c div 4)
       # char_of ((c mod 4) * 64 + d) # sextets_bytes rest"
| "sextets_bytes [a, b, c] = [char_of (a * 4 + b div 16), char_of ((b mod 16) * 16 + c div 4)]"
| "sextets_bytes [a, b] = [char_of (a * 4 + b div 16)]"
| "sextets_bytes [a] = []"
| "sextets_bytes [] = []"

definition base64_decode :: "string \<Rightarrow> buffer" where
  "base64_decode text =
     sextets_bytes (List.map_filter unbase64 (takeWhile (\<lambda>c. c \<noteq> CHR ''='') text))"

text \<open>\<open>chunk.toString('ascii')\<close>: every byte with its high bit cleared.\<close>

definition toString_ascii :: "buffer \<Rightarrow> string" where
  "toString_ascii chunk = map (\<lambda>c. char_of ((of_char c :: nat) mod 128)) chunk"

text \<open>
  \<open>toLowerCase\<close> on the letters of ASCII; a letter outside ASCII is left as it is.
  (The byte parser lets only ASCII letters and hyphens through in a header name.)
\<close>

definition toLowerCase :: "string \<Rightarrow> string" where
  "toLowerCase str =
     map (\<lambda>c. let n = (of_char c :: nat) in if 65 \<le> n \<and> n \<le> 90 then char_of (n + 32) else c) str"

section \<open>MultipartParser\<close>

text \<open>
  What the parser takes from outside its own code: \<open>JSON.parse\<close> (\<open>None\<close> when it
  throws) and the three extractors \<open>_getFieldName\<close>, \<open>_getFilename\<close> and \<open>_getContentId\<close>,
  which are regular-expression matches on a header value. The properties below hold
  whatever these return.
\<close>

record platform =
  JSON_parse :: "string \<Rightarrow> json option"
  getFieldName :: "string \<Rightarrow> string option"
  getFilename :: "string \<Rightarrow> string option"
  getContentId :: "string \<Rightarrow> string option"

text \<open>
  \<open>_curPartState\<close>: the object literal of \<open>_onPartBegin\<close> and the properties added to
  it later (\<open>_headerName\<close> by \<open>_onHeaderName\<close>, \<open>partSize\<close> and \<open>tmp\<close> by \<open>_onHeadersEnd\<close>),
  which are \<open>undefined\<close> until then. A \<open>partSize\<close> of \<open>None\<close> also stands for the \<open>NaN\<close> that
  adding to \<open>undefined\<close> gives: it stays \<open>NaN\<close> and exceeds no limit.
\<close>

record CurPartState =
  cps_name :: "string option"
  cps_filename :: "string option"
  cps_contentId :: "string option"
  cps_contentType :: "string option"
  cps_transferEncoding :: string
  cps_headers :: "(string \<times> string) list"
  cps_headerName :: "string option"
  cps_partSize :: "int option"
  cps_tmp :: "string option"

text \<open>
  What the parser emits: \<open>part\<close> with a part (given by its position in \<open>parts\<close>, the
  event carries the object itself), \<open>error\<close>, and the \<open>finish\<close> of the writable stream
  that the parser is.
\<close>

datatype emission = PartOut nat | ErrorOut MultipartError | FinishOut

text \<open>
  What a call into the parser throws: the \<open>TypeError\<close> of a handler that dereferences
  \<open>null\<close> or \<open>undefined\<close>, or the error of an \<open>error\<close> event that has no listener.
\<close>

datatype exception = TypeError | UnhandledError MultipartError

text \<open>
  The parser and what it has emitted. \<open>deferred\<close> holds the field and object parts (by
  position) whose stream has been ended and whose \<open>end\<close> listener, installed by
  \<open>handlePart\<close>, has not run yet: a stream delivers its \<open>data\<close> and \<open>end\<close> events in a
  later turn of the event loop, not during the call that writes to it or ends it.
\<close>

record MultipartParser =
  maxParts :: int
  maxPartSize :: int
  maxTotalSize :: int
  mp_boundary :: string
  parts :: "Part list"
  byteParser :: "ParserState option"
  curPartState :: "CurPartState option"
  totalSize :: int
  mp_error :: bool
  emitted :: "emission list"
  deferred :: "nat list"

text \<open>
  The constructor, for a configured delimiter. A limit that is absent or 0 takes its
  default; without a delimiter (the empty string is falsy) there is no byte parser.
\<close>

definition or_default :: "int option \<Rightarrow> int \<Rightarrow> int" where
  "or_default x d = (case x of None \<Rightarrow> d | Some v \<Rightarrow> if v = 0 then d else v)"

definition MultipartParser_new ::
  "int option \<Rightarrow> int option \<Rightarrow> int option \<Rightarrow> string \<Rightarrow> MultipartParser" where
  "MultipartParser_new optMaxParts optMaxPartSize optMaxTotalSize bnd =
     \<lparr> maxParts = or_default optMaxParts 10,
       maxPartSize = or_default optMaxPartSize (10 * 1024 * 1024),
       maxTotalSize = or_default optMaxTotalSize (100 * 1024 * 1024),
       mp_boundary = bnd,
       parts = [],
       byteParser = (if bnd = [] then None else Some (newByteParser bnd)),
       curPartState = None,
       totalSize = 0,
       mp_error = False,
       emitted = [],
       deferred = [] \<rparr>"

text \<open>\<open>_curPart\<close>: the last of \<open>parts\<close>, \<open>null\<close> when there is none.\<close>

definition curPart :: "MultipartParser \<Rightarrow> Part option" where
  "curPart s = (if parts s = [] then None else Some (last (parts s)))"

definition set_curPart :: "Part \<Rightarrow> MultipartParser \<Rightarrow> MultipartParser" where
  "set_curPart p s = s\<lparr>parts := butlast (parts s) @ [p]\<rparr>"

definition emitError :: "MultipartError \<Rightarrow> MultipartParser \<Rightarrow> MultipartParser" where
  "emitError err s = s\<lparr>mp_error := True, emitted := emitted s @ [ErrorOut err], byteParser := None\<rparr>"

text \<open>
  The handlers. A handler that dereferences \<open>null\<close> or \<open>undefined\<close> throws a
  \<open>TypeError\<close>: the result \<open>None\<close>.
\<close>

definition onPartBegin :: "MultipartParser \<Rightarrow> MultipartParser option" where
  "onPartBegin s =
     (if int (length (parts s)) \<ge> maxParts s - 1 then Some (emitError TooManyParts s)
      else Some (s\<lparr>curPartState := Some
             \<lparr> cps_name = None, cps_filename = None, cps_contentId = None,
               cps_contentType = None, cps_transferEncoding = ''binary'', cps_headers = [],
               cps_headerName = None, cps_partSize = None, cps_tmp = None \<rparr>\<rparr>))"

definition onHeaderName :: "buffer \<Rightarrow> MultipartParser \<Rightarrow> MultipartParser option" where
  "onHeaderName chunk s =
     (case curPartState s of
        None \<Rightarrow> None
      | Some c \<Rightarrow> Some (s\<lparr>curPartState := Some (c\<lparr>cps_headerName := Some chunk\<rparr>)\<rparr>))"

definition onHeaderValue :: "platform \<Rightarrow> buffer \<Rightarrow> MultipartParser \<Rightarrow> MultipartParser option" where
  "onHeaderValue pf chunk s =
     (case curPartState s of
        None \<Rightarrow> None
      | Some c \<Rightarrow>
          (case cps_headerName c of
             None \<Rightarrow> None
           | Some hn \<Rightarrow>
               (let headerName = toLowerCase hn;
                    headerValue = chunk;
                    c1 = (if headerName = ''content-disposition'' then
                            c\<lparr>cps_name := getFieldName pf headerValue,
                              cps_filename := getFilename pf headerValue\<rparr>
                          else if headerName = ''content-id'' then
                            c\<lparr>cps_contentId := getContentId pf headerValue\<rparr>
                          else if headerName = ''content-type'' then
                            c\<lparr>cps_contentType := Some (toLowerCase headerValue)\<rparr>
                          else if headerName = ''content-transfer-encoding'' then
                            c\<lparr>cps_transferEncoding := toLowerCase headerValue\<rparr>
                          else c)
                in Some (s\<lparr>curPartState := Some
                          (c1\<lparr>cps_headers := set_header hn headerValue (cps_headers c1),
                               cps_headerName := Some []\<rparr>)\<rparr>))))"

text \<open>
  \<open>handlePart\<close>, the default part handler: a stream part is announced at once. On a
  field or an object part it installs three listeners: \<open>error\<close> (\<open>part_error\<close> below),
  \<open>data\<close>, which collects the buffers written, and \<open>end\<close> (\<open>end_listener\<close> below).
\<close>

definition handlePart :: "MultipartParser \<Rightarrow> MultipartParser" where
  "handlePart s =
     (case curPart s of
        None \<Rightarrow> s
      | Some part \<Rightarrow>
          if part_type part = STREAM
          then s\<lparr>emitted := emitted s @ [PartOut (length (parts s) - 1)]\<rparr>
          else s)"

text \<open>
  The \<open>end\<close> listener of \<open>handlePart\<close> on a part: the buffers collected are concatenated
  and read as UTF-8 text (a string is kept as its bytes here, so the body is taken to
  be valid UTF-8); an object part takes as its value what \<open>JSON.parse\<close> makes of the
  text, or the empty object when \<open>JSON.parse\<close> throws; a field part takes the text. Then
  the part is announced. The listener does not look at the error flag of the parser.
\<close>

definition handlePart_end :: "platform \<Rightarrow> Part \<Rightarrow> Part" where
  "handlePart_end pf part =
     (let partData = concat (part_written part) in
      case part_type part of
        OBJECT \<Rightarrow>
          part\<lparr>part_value := Some (case JSON_parse pf partData of
                                     Some v \<Rightarrow> v
                                   | None \<Rightarrow> JObject [])\<rparr>
      | FIELD \<Rightarrow> part\<lparr>part_value := Some (JString partData)\<rparr>
      | STREAM \<Rightarrow> part)"

definition end_listener :: "platform \<Rightarrow> nat \<Rightarrow> MultipartParser \<Rightarrow> MultipartParser" where
  "end_listener pf i s =
     (if i < length (parts s) \<and> part_type (parts s ! i) \<noteq> STREAM
      then s\<lparr>parts := (parts s)[i := handlePart_end pf (parts s ! i)],
             emitted := emitted s @ [PartOut i]\<rparr>
      else s)"

text \<open>
  The \<open>error\<close> listeners of a part: the one of \<open>_onHeadersEnd\<close> uncorks the parser, the
  one of \<open>handlePart\<close>, on a field or an object part, hands the error to \<open>_emitError\<close>.
\<close>

definition part_error :: "MultipartError \<Rightarrow> Part \<Rightarrow> MultipartParser \<Rightarrow> MultipartParser" where
  "part_error err part s = (if part_type part = STREAM then s else emitError err s)"

definition write_after_end :: MultipartError where
  "write_after_end = StreamError ''write after end''"

text \<open>\<open>_curPart.write(buf)\<close>, with the listeners of the part.\<close>

definition writePart :: "buffer \<Rightarrow> Part \<Rightarrow> MultipartParser \<Rightarrow> MultipartParser" where
  "writePart buf part s =
     (case Part_write buf part of
        (part', err) \<Rightarrow>
          if err then part_error write_after_end part s else set_curPart part' s)"

definition onHeadersEnd :: "MultipartParser \<Rightarrow> MultipartParser option" where
  "onHeadersEnd s =
     (case curPartState s of
        None \<Rightarrow> None
      | Some c \<Rightarrow>
          (let part = Part_new
                 \<lparr> opt_type = None, opt_value = None, opt_name = cps_name c,
                   opt_filename = cps_filename c,
                   opt_transferEncoding = Some (cps_transferEncoding c),
                   opt_contentType = cps_contentType c, opt_contentId = cps_contentId c,
                   opt_headers = Some (cps_headers c) \<rparr>
           in Some (handlePart
                (s\<lparr>curPartState := Some (c\<lparr>cps_partSize := Some 0, cps_tmp := Some []\<rparr>),
                   parts := parts s @ [part]\<rparr>))))"

text \<open>
  The base64 branch of \<open>_onPartData\<close> on the pending text: the chunk is appended, the
  longest prefix whose length is a multiple of 4 is decoded, the rest is kept. (The
  length of a JavaScript string is below \<open>2^30\<close>, so that the two shifts of
  \<open>(length >> 2) << 2\<close> do not overflow.) An \<open>undefined\<close> pending text reads as the
  string \<open>undefined\<close>.
\<close>

definition pending :: "string option \<Rightarrow> string" where
  "pending tmp = (case tmp of None \<Rightarrow> ''undefined'' | Some t \<Rightarrow> t)"

definition base64_chunk :: "string option \<Rightarrow> buffer \<Rightarrow> buffer \<times> string" where
  "base64_chunk tmp chunk =
     (let t = pending tmp @ toString_ascii chunk;
          offset = (length t div 4) * 4
      in (base64_decode (take offset t), drop offset t))"

definition onPartData :: "buffer \<Rightarrow> MultipartParser \<Rightarrow> MultipartParser option" where
  "onPartData chunk s =
     (case curPartState s of
        None \<Rightarrow> None
      | Some c \<Rightarrow>
          (let size = (case cps_partSize c of
                         None \<Rightarrow> None
                       | Some n \<Rightarrow> Some (n + int (length chunk)));
               c1 = c\<lparr>cps_partSize := size\<rparr>;
               s1 = s\<lparr>curPartState := Some c1\<rparr>
           in if (case size of None \<Rightarrow> False | Some n \<Rightarrow> n > maxPartSize s) then
                Some (emitError PartTooLarge s1)
              else
                (let s2 = s1\<lparr>totalSize := totalSize s1 + int (length chunk)\<rparr>
                 in if totalSize s2 > maxTotalSize s then Some (emitError MessageTooLarge s2)
                    else
                      (case curPart s2 of
                         None \<Rightarrow> None
                       | Some part \<Rightarrow>
                           (let encoding = part_transferEncoding part in
                            if encoding = Some ''binary'' \<or> encoding = Some ''7bit''
                               \<or> encoding = Some ''8bit'' then
                              Some (writePart chunk part s2)
                            else if encoding = Some ''base64'' then
                              (case base64_chunk (cps_tmp c1) chunk of
                                 (buf, rest) \<Rightarrow>
                                   Some (writePart buf part
                                     (s2\<lparr>curPartState := Some (c1\<lparr>cps_tmp := Some rest\<rparr>)\<rparr>)))
                            else Some (emitError UnsupportedEncoding s2))))))"

text \<open>
  \<open>_curPart.end(buf)\<close>, with the listeners of the part: a buffer that the stream
  refuses raises its error; a field or an object part that is ended now has its \<open>end\<close>
  listener run in a later turn.
\<close>

definition endPart :: "buffer option \<Rightarrow> Part \<Rightarrow> MultipartParser \<Rightarrow> MultipartParser" where
  "endPart buf part s =
     (case Part_end buf part of
        (part', err) \<Rightarrow>
          if err then part_error write_after_end part (set_curPart part' s)
          else if part_ended part \<or> part_type part = STREAM then set_curPart part' s
          else (set_curPart part' s)\<lparr>deferred := deferred s @ [length (parts s) - 1]\<rparr>)"

definition onPartEnd :: "MultipartParser \<Rightarrow> MultipartParser option" where
  "onPartEnd s =
     (case curPart s of
        None \<Rightarrow> None
      | Some part \<Rightarrow>
          (let encoding = part_transferEncoding part in
           if encoding = Some ''binary'' \<or> encoding = Some ''7bit'' \<or> encoding = Some ''8bit''
           then Some (endPart None part s)
           else if encoding = Some ''base64'' then
             (case curPartState s of
                None \<Rightarrow> None
              | Some c \<Rightarrow>
                  (case cps_tmp c of
                     None \<Rightarrow> None
                   | Some tmp \<Rightarrow> Some (endPart (Some (base64_decode tmp)) part s)))
           else Some (emitError UnsupportedEncoding s)))"

text \<open>
  The listeners installed by \<open>_initMultipartByteParser\<close>, each behind
  \<open>wrapInErrorChecker\<close>. An event without a listener (\<open>end\<close>) is dropped; a span handler
  called without a buffer throws.
\<close>

definition listener :: "platform \<Rightarrow> event \<Rightarrow> MultipartParser \<Rightarrow> MultipartParser option" where
  "listener pf ev s =
     (case ev of
        Signal n \<Rightarrow>
          (case n of
             partBegin \<Rightarrow> onPartBegin s
           | headersEnd \<Rightarrow> onHeadersEnd s
           | partEnd \<Rightarrow> onPartEnd s
           | endOfMessage \<Rightarrow> Some s
           | _ \<Rightarrow> None)
      | Data n chunk \<Rightarrow>
          (case n of
             partBegin \<Rightarrow> onPartBegin s
           | headerName \<Rightarrow> onHeaderName chunk s
           | headerValue \<Rightarrow> onHeaderValue pf chunk s
           | headersEnd \<Rightarrow> onHeadersEnd s
           | partData \<Rightarrow> onPartData chunk s
           | partEnd \<Rightarrow> onPartEnd s
           | endOfMessage \<Rightarrow> Some s))"

definition wrapInErrorChecker :: "platform \<Rightarrow> event \<Rightarrow> MultipartParser \<Rightarrow> MultipartParser option" where
  "wrapInErrorChecker pf ev s = (if \<not> mp_error s then listener pf ev s else Some s)"

fun deliver :: "platform \<Rightarrow> event list \<Rightarrow> MultipartParser \<Rightarrow> MultipartParser option" where
  "deliver pf [] s = Some s"
| "deliver pf (ev # evs) s =
     (case wrapInErrorChecker pf ev s of None \<Rightarrow> None | Some s' \<Rightarrow> deliver pf evs s')"

text \<open>
  \<open>_write\<close>: an errored parser drops the chunk; otherwise the chunk goes to the byte
  parser, whose events are delivered to the listeners as they are emitted. The parser
  installs no \<open>error\<close> listener on its byte parser: an error that the byte parser
  raises is an \<open>error\<close> event without a listener, which is thrown out of the call (by
  the streams of the Node.js versions that have \<open>new Buffer\<close>), and the error flag of
  the parser stays as it is.
\<close>

definition writeChunk :: "platform \<Rightarrow> buffer \<Rightarrow> MultipartParser \<Rightarrow> exception + MultipartParser" where
  "writeChunk pf chunk s =
     (if mp_error s then Inr s
      else
        (case byteParser s of
           None \<Rightarrow> Inl TypeError
         | Some bp \<Rightarrow>
             (case transform (mp_boundary s) chunk bp of
                (bp', evs, err) \<Rightarrow>
                  (case deliver pf evs s of
                     None \<Rightarrow> Inl TypeError
                   | Some s' \<Rightarrow>
                       (case err of
                          Some e \<Rightarrow> Inl (UnhandledError e)
                        | None \<Rightarrow>
                            Inr (s'\<lparr>byteParser := (case byteParser s' of
                                                     None \<Rightarrow> None
                                                   | Some x \<Rightarrow> Some bp')\<rparr>))))))"

text \<open>Chunks written one after the other in one turn; \<open>None\<close> when a call throws.\<close>

fun write_all :: "platform \<Rightarrow> buffer list \<Rightarrow> MultipartParser \<Rightarrow> MultipartParser option" where
  "write_all pf [] s = Some s"
| "write_all pf (chunk # chunks) s =
     (case writeChunk pf chunk s of Inl e \<Rightarrow> None | Inr s' \<Rightarrow> write_all pf chunks s')"

text \<open>
  A turn of the event loop after a call: the \<open>end\<close> listeners that are due run, in the
  order in which their parts were ended.
\<close>

definition tick :: "platform \<Rightarrow> MultipartParser \<Rightarrow> MultipartParser" where
  "tick pf s = foldl (\<lambda>s' i. end_listener pf i s') (s\<lparr>deferred := []\<rparr>) (deferred s)"

text \<open>
  The chunks of a decode session, each written in a turn of its own: the listeners that
  a chunk leaves due run before the next chunk is written.
\<close>

fun session :: "platform \<Rightarrow> buffer list \<Rightarrow> MultipartParser \<Rightarrow> exception + MultipartParser" where
  "session pf [] s = Inr s"
| "session pf (chunk # chunks) s =
     (case writeChunk pf chunk s of Inl e \<Rightarrow> Inl e | Inr s' \<Rightarrow> session pf chunks (tick pf s'))"

text \<open>
  The end of the input of a decode session. \<open>MultipartParser\<close> has no code for it: it
  installs no \<open>finish\<close> handler and never ends its byte parser, whose own \<open>finish\<close>
  handler (\<open>on_finish\<close>) therefore does not run. The writable stream that the parser is
  emits \<open>finish\<close> when the chunks written have been handled. \<open>decode\<close> is the whole
  session, the chunks and then the end of the input.
\<close>

definition endInput :: "MultipartParser \<Rightarrow> MultipartParser" where
  "endInput s = s\<lparr>emitted := emitted s @ [FinishOut]\<rparr>"

definition decode :: "platform \<Rightarrow> buffer list \<Rightarrow> MultipartParser \<Rightarrow> exception + MultipartParser" where
  "decode pf chunks s = map_sum id endInput (session pf chunks s)"

text \<open>
  The events of a message given part by part, each part with its header fields and
  the fragments of its body, as the byte parser emits them when no header is split.
\<close>

type_synonym part_input = "(string \<times> string) list \<times> buffer list"

definition events_of_part :: "part_input \<Rightarrow> event list" where
  "events_of_part p =
     Signal partBegin
       # concat (map (\<lambda>(n, v). [Data headerName n, Data headerValue v]) (fst p))
       @ [Signal headersEnd] @ map (Data partData) (snd p) @ [Signal partEnd]"

definition events_of :: "part_input list \<Rightarrow> event list" where
  "events_of ps = concat (map events_of_part ps)"

section \<open>MultipartStreamer\<close>

text \<open>
  \<open>addStreamPart\<close>: the arguments, with the content of the stream given as the buffers
  it delivers; a missing stream or content type throws (\<open>None\<close>). The stream is piped
  into the part.
\<close>

record StreamPartArgs =
  arg_value :: "buffer list option"
  arg_contentType :: "string option"
  arg_transferEncoding :: "string option"
  arg_name :: "string option"
  arg_filename :: "string option"
  arg_contentId :: "string option"
  arg_headers :: "(string \<times> string) list option"

definition addStreamPart :: "StreamPartArgs \<Rightarrow> Part option" where
  "addStreamPart args =
     (case arg_value args of
        None \<Rightarrow> None
      | Some content \<Rightarrow>
          if arg_contentType args = None then None
          else Some ((Part_new
                 \<lparr> opt_type = Some STREAM, opt_value = None, opt_name = arg_name args,
                   opt_filename = arg_filename args,
                   opt_transferEncoding = arg_transferEncoding args,
                   opt_contentType = arg_contentType args,
                   opt_contentId = arg_contentId args,
                   opt_headers = arg_headers args \<rparr>)
               \<lparr>part_written := content, part_ended := True\<rparr>))"

text \<open>\<open>Array.prototype.join\<close> on strings.\<close>

fun join :: "string \<Rightarrow> string list \<Rightarrow> string" where
  "join sep [] = []"
| "join sep [x] = x"
| "join sep (x # y # ys) = x @ sep @ join sep (y # ys)"

text \<open>
  The headers of a part as \<open>handlePart\<close> of \<open>_setup\<close> completes them before it writes
  them. The content id is read as \<open>part.id\<close>.
\<close>

definition setup_headers :: "Part \<Rightarrow> (string \<times> string) list" where
  "setup_headers part =
     (let contentDisposition =
            [''form-data'']
            @ (case Part_get ''name'' part of
                 Some n \<Rightarrow> [''name='' @ [CHR 0x22] @ n @ [CHR 0x22]] | None \<Rightarrow> [])
            @ (case Part_get ''filename'' part of
                 Some f \<Rightarrow> [''filename='' @ [CHR 0x22] @ f @ [CHR 0x22]] | None \<Rightarrow> []);
          h1 = (if length contentDisposition > 1
                then set_header ''Content-Disposition'' (join ''; '' contentDisposition)
                       (part_headers part)
                else part_headers part);
          h2 = (case Part_get ''id'' part of
                  Some i \<Rightarrow> set_header ''Content-ID'' (''<'' @ i @ ''>'') h1 | None \<Rightarrow> h1);
          h3 = (case Part_get ''contentType'' part of
                  Some ct \<Rightarrow> set_header ''Content-Type'' ct h2 | None \<Rightarrow> h2);
          h4 = (case Part_get ''transferEncoding'' part of
                  Some te \<Rightarrow> set_header ''Content-Transfer-Encoding'' te h3 | None \<Rightarrow> h3)
      in h4)"

text \<open>\<open>REDUCER\<close> folded over the headers.\<close>

definition REDUCER :: "string \<Rightarrow> string \<times> string \<Rightarrow> string" where
  "REDUCER reduced kv = reduced @ fst kv @ '': '' @ snd kv @ CRLF"

definition serializedHeaders :: "(string \<times> string) list \<Rightarrow> string" where
  "serializedHeaders hs = foldl REDUCER [] hs"

text \<open>
  What \<open>_setup\<close> writes to the output when no stream fails: for each part in order the
  boundary line, the headers, an empty line, the content of the part and CR LF; then
  the closing boundary line.
\<close>

fun handlePart_out :: "string \<Rightarrow> Part list \<Rightarrow> buffer" where
  "handlePart_out bnd [] = ''--'' @ bnd @ ''--'' @ CRLF"
| "handlePart_out bnd (part # rest) =
     (''--'' @ bnd @ CRLF @ serializedHeaders (setup_headers part) @ CRLF)
       @ concat (part_written part) @ CRLF @ handlePart_out bnd rest"

definition setup_output :: "string \<Rightarrow> Part list \<Rightarrow> buffer" where
  "setup_output bnd ps = handlePart_out bnd ps"

definition stream_part_with_id :: StreamPartArgs where
  "stream_part_with_id =
     \<lparr> arg_value = Some [''hello''], arg_contentType = Some ''text/plain'',
       arg_transferEncoding = None, arg_name = Some ''n'', arg_filename = None,
       arg_contentId = Some ''cid'', arg_headers = None \<rparr>"

section \<open>Notions used in the statements\<close>

text \<open>\<open>no_end\<close>: the \<open>end\<close> signal is not among the events.\<close>

definition no_end :: "event list \<Rightarrow> bool" where
  "no_end evs = (Signal endOfMessage \<notin> set evs)"

text \<open>
  What a run of the loop from a parser that has not errored leaves behind: an error
  handed to \<open>next\<close> is a parse error, it sets the error flag, and it never comes from the
  end state; without one the flag stays clear. The loop never emits \<open>end\<close>.
\<close>

definition ok_result :: "ParserState \<times> event list \<times> MultipartError option \<Rightarrow> bool" where
  "ok_result r = (case r of (s', evs', e) \<Rightarrow>
     no_end evs' \<and>
     (case e of None \<Rightarrow> \<not> error s'
      | Some x \<Rightarrow> (\<exists>msg. x = ParseError msg) \<and> error s' \<and> state s' \<noteq> END))"

text \<open>
  A session that starts with a parser that has not errored: no \<open>end\<close> is emitted while
  chunks are fed, at most one error is raised, and a raised error leaves the error flag
  set in a state other than the end state.
\<close>

definition ok_session :: "ParserState \<times> event list \<times> MultipartError list \<Rightarrow> bool" where
  "ok_session r = (case r of (s', evs, es) \<Rightarrow>
     no_end evs \<and>
     (case es of [] \<Rightarrow> \<not> error s'
      | x # xs \<Rightarrow> xs = [] \<and> (\<exists>msg. x = ParseError msg) \<and> error s' \<and> state s' \<noteq> END))"

definition events :: "ParserState \<times> event list \<times> MultipartError list \<Rightarrow> event list" where
  "events r = fst (snd r)"

definition errors :: "ParserState \<times> event list \<times> MultipartError list \<Rightarrow> MultipartError list" where
  "errors r = snd (snd r)"

text \<open>
  Successive fragments of one span (two \<open>headerName\<close>, \<open>headerValue\<close> or \<open>partData\<close>
  events in a row) concatenated: what a consumer of the events reassembles.
\<close>

fun coalesce :: "event list \<Rightarrow> event list" where
  "coalesce (Data n a # Data m b # es) =
     (if n = m then coalesce (Data n (a @ b) # es) else Data n a # coalesce (Data m b # es))"
| "coalesce (e # es) = e # coalesce es"
| "coalesce [] = []"

text \<open>The byte stream split at offset \<open>k\<close> into two deliveries.\<close>

definition split_at :: "nat \<Rightarrow> buffer \<Rightarrow> buffer list" where
  "split_at k message = [take k message, drop k message]"

text \<open>
  A message of one part with one header and the body \<open>data\<close>, for the delimiter \<open>b\<close>;
  the same with an empty body; and one whose header name has a \<open>z\<close>.
\<close>

definition message_data :: buffer where
  "message_data = ''--b'' @ CRLF @ ''Name: v'' @ CRLF @ CRLF @ ''data'' @ CRLF @ ''--b--''"

definition message_empty_body :: buffer where
  "message_empty_body = ''--b'' @ CRLF @ ''A: v'' @ CRLF @ CRLF @ CRLF @ ''--b--''"

definition message_size_header :: buffer where
  "message_size_header = ''--b'' @ CRLF @ ''Size: 1'' @ CRLF @ CRLF @ ''x'' @ CRLF @ ''--b--''"

text \<open>
  What every handler but \<open>_onPartBegin\<close> leaves alone: the limit on the number of
  parts, the absence of a \<open>TooManyParts\<close> error, an error flag that is set; and the
  number of parts, which only \<open>_onHeadersEnd\<close> raises, by one.
\<close>

definition tmf :: "MultipartParser \<Rightarrow> bool" where
  "tmf s = (ErrorOut TooManyParts \<notin> set (emitted s))"

definition frame :: "nat \<Rightarrow> MultipartParser \<Rightarrow> MultipartParser \<Rightarrow> bool" where
  "frame k s s' =
     (maxParts s' = maxParts s \<and> length (parts s') = length (parts s) + k
      \<and> tmf s' = tmf s)"

text \<open>
  A platform whose \<open>JSON.parse\<close> rejects every text and whose extractors find nothing,
  and the events of sessions used as examples.
\<close>

definition null_platform :: platform where
  "null_platform =
     \<lparr> JSON_parse = (\<lambda>text. None), getFieldName = (\<lambda>v. None),
       getFilename = (\<lambda>v. None), getContentId = (\<lambda>v. None) \<rparr>"

definition three_parts :: "part_input list" where
  "three_parts = [([], [''a'']), ([], [''b'']), ([], [''c''])]"

text \<open>The errors among what a session has emitted.\<close>

fun is_error :: "emission \<Rightarrow> bool" where
  "is_error (ErrorOut e) = True"
| "is_error (PartOut i) = False"
| "is_error FinishOut = False"

definition errors_of :: "MultipartParser \<Rightarrow> emission list" where
  "errors_of s = filter is_error (emitted s)"

text \<open>
  A platform whose \<open>JSON.parse\<close> knows the text of one value and rejects every other
  text, and the events that open an object part.
\<close>

definition sample_platform :: platform where
  "sample_platform =
     \<lparr> JSON_parse = (\<lambda>text. if text = ''[1]'' then Some (JArray [JNumber 1]) else None),
       getFieldName = (\<lambda>v. None), getFilename = (\<lambda>v. None), getContentId = (\<lambda>v. None) \<rparr>"

definition object_part_head :: "event list" where
  "object_part_head =
     [Signal partBegin, Data headerName ''Content-Type'', Data headerValue ''application/json'',
      Signal headersEnd]"

text \<open>
  A message of two object parts, and a message whose only part is an object part with
  a text that is not JSON.
\<close>

definition object_part :: "string \<Rightarrow> buffer" where
  "object_part body =
     ''--b'' @ CRLF @ ''Content-Type: application/json'' @ CRLF @ CRLF @ body @ CRLF"

definition two_object_parts :: buffer where
  "two_object_parts = object_part ''[1]'' @ object_part ''{bad'' @ ''--b--''"

text \<open>
  The parts that a run of \<open>end\<close> listeners announces: those of the positions due that
  are positions of field or object parts.
\<close>

definition announced :: "PartType list \<Rightarrow> nat list \<Rightarrow> emission list" where
  "announced ts ds = map PartOut (filter (\<lambda>j. j < length ts \<and> ts ! j \<noteq> STREAM) ds)"

text \<open>
  Canonical base64 text: characters of the alphabet, then nothing but \<open>=\<close> padding.
\<close>

definition base64_char :: "char \<Rightarrow> bool" where
  "base64_char c = (unbase64 c \<noteq> None)"

definition canonical :: "string \<Rightarrow> bool" where
  "canonical text = list_all (\<lambda>c. c = CHR ''='') (dropWhile base64_char text)"

text \<open>The base64 branch run over the fragments of a body, from the pending text \<open>tmp\<close>.\<close>

fun base64_stream :: "string \<Rightarrow> buffer list \<Rightarrow> buffer list \<times> string" where
  "base64_stream tmp [] = ([], tmp)"
| "base64_stream tmp (b # bs) =
     (case base64_chunk (Some tmp) b of (buf, rest) \<Rightarrow>
        (case base64_stream rest bs of (bufs, tmp') \<Rightarrow> (buf # bufs, tmp')))"

text \<open>
  The parser inside a base64 part, as \<open>_onHeadersEnd\<close> and the \<open>partData\<close> events that
  follow leave it: no error so far, the pending text \<open>tmp\<close>, the part size \<open>n\<close>, and the
  current part, not ended, with the buffers \<open>w\<close> written to it.
\<close>

definition in_base64_part :: "MultipartParser \<Rightarrow> string \<Rightarrow> int \<Rightarrow> buffer list \<Rightarrow> bool" where
  "in_base64_part s tmp n w =
     (\<not> mp_error s
      \<and> (case curPartState s of
             None \<Rightarrow> False
           | Some c \<Rightarrow> cps_tmp c = Some tmp \<and> cps_partSize c = Some n)
      \<and> (case curPart s of
             None \<Rightarrow> False
           | Some part \<Rightarrow>
               part_transferEncoding part = Some ''base64'' \<and> \<not> part_ended part
               \<and> part_written part = w))"

text \<open>
  A message whose part is a base64 body of two lines, and the events that open a
  base64 part.
\<close>

definition base64_message :: buffer where
  "base64_message =
     ''--b'' @ CRLF @ ''Content-Transfer-Encoding: base64'' @ CRLF @ CRLF
       @ ''QUJD'' @ CRLF @ ''REVG'' @ CRLF @ ''--b--''"

definition base64_part_head :: "event list" where
  "base64_part_head =
     [Signal partBegin, Data headerName ''Content-Transfer-Encoding'', Data headerValue ''BASE64'',
      Signal headersEnd]"

section \<open>Lemmas\<close>

lemma no_end_simps [simp]:
  "no_end []" "no_end (e # evs) = (e \<noteq> Signal endOfMessage \<and> no_end evs)"
  "no_end (xs @ ys) = (no_end xs \<and> no_end ys)"
  by (auto simp: no_end_def)

lemma emitSpan_no_end [simp]: "no_end (snd (emitSpan ev buf start endPos r s))"
  by (simp add: emitSpan_def split: option.splits)

lemma emitSpan_eq:
  "emitSpan ev buf start endPos r s = (s', evs) \<Longrightarrow>
     index s' = index s \<and> state s' = state s \<and> error s' = error s \<and> flags s' = flags s \<and> no_end evs"
  using emitSpan_index[of ev buf start endPos r s] emitSpan_state[of ev buf start endPos r s]
    emitSpan_error[of ev buf start endPos r s] emitSpan_no_end[of ev buf start endPos r s]
  by (auto simp: emitSpan_def mark_def clear_def split: option.splits if_splits)

lemma case_BOUNDARY_Next:
  "case_BOUNDARY B curPos curByte s = Next s' pos' evs \<Longrightarrow> error s' = error s \<and> no_end evs"
  by (auto simp: case_BOUNDARY_def Let_def done_error_def updateState_def resetFlags_def
      setFlags_def split: if_splits)

lemma case_BOUNDARY_Return:
  "case_BOUNDARY B curPos curByte s = Return s' evs r \<Longrightarrow>
     s' = setErrored s \<and> evs = [] \<and> r = Some (ParseError msg_boundary)"
  by (auto simp: case_BOUNDARY_def Let_def done_error_def split: if_splits)

lemma case_HEADER_NAME_Next:
  "case_HEADER_NAME chunk curPos curByte s = Next s' pos' evs \<Longrightarrow> error s' = error s \<and> no_end evs"
  by (auto simp: case_HEADER_NAME_def Let_def done_error_def updateState_def clear_def
      split: if_splits prod.splits dest: emitSpan_eq)

lemma case_HEADER_NAME_Return:
  "case_HEADER_NAME chunk curPos curByte s = Return s' evs r \<Longrightarrow>
     s' = setErrored s \<and> evs = [] \<and> (\<exists>msg. r = Some (ParseError msg))"
  by (auto simp: case_HEADER_NAME_def Let_def done_error_def split: if_splits prod.splits)

lemma case_HEADER_VALUE_Next:
  "case_HEADER_VALUE chunk curPos curByte s = Next s' pos' evs \<Longrightarrow> error s' = error s \<and> no_end evs"
  by (auto simp: case_HEADER_VALUE_def Let_def updateState_def
      split: if_splits prod.splits dest: emitSpan_eq)

lemma case_HEADER_VALUE_Return:
  "case_HEADER_VALUE chunk curPos curByte s \<noteq> Return s' evs r"
  by (auto simp: case_HEADER_VALUE_def Let_def split: if_splits prod.splits)

lemma pd_match_props:
  "pd_match B chunk curPos curByte s = (brk, s', evs) \<Longrightarrow> error s' = error s \<and> no_end evs"
  by (auto simp: pd_match_def Let_def updateState_def resetFlags_def unsetFlags_def
      setFlags_def split: if_splits prod.splits dest: emitSpan_eq)

lemma pd_finish_Next:
  "pd_finish curPos curByte prevIndex (brk, s1, evs1) = Next s' pos' evs \<Longrightarrow>
     error s' = error s1 \<and> (no_end evs1 \<longrightarrow> no_end evs)"
  by (auto simp: pd_finish_def mark_def split: if_splits prod.splits dest: emitSpan_eq)

lemma pd_finish_Return: "pd_finish curPos curByte prevIndex r \<noteq> Return s' evs e"
  by (cases r) (auto simp: pd_finish_def split: if_splits prod.splits)

lemma case_PART_DATA_Next:
  assumes "case_PART_DATA boundary chunk curPos s = Next s' pos' evs"
  shows "error s' = error s \<and> no_end evs"
proof -
  let ?c = "pd_cursor boundary chunk curPos s"
  obtain brk s1 evs1 where m:
    "pd_match (constructBoundary boundary) chunk ?c (byte_at chunk (int ?c)) s = (brk, s1, evs1)"
    by (metis prod_cases3)
  with assms have "pd_finish ?c (byte_at chunk (int ?c)) (index s) (brk, s1, evs1) = Next s' pos' evs"
    by (simp add: case_PART_DATA_def Let_def)
  from pd_finish_Next[OF this] pd_match_props[OF m] show ?thesis by simp
qed

lemma case_PART_DATA_Return: "case_PART_DATA boundary chunk curPos s \<noteq> Return s' evs e"
  by (simp add: case_PART_DATA_def Let_def pd_finish_Return)

lemma step_Next:
  assumes "step boundary chunk curPos s = Next s' pos' evs"
  shows "error s' = error s \<and> no_end evs"
proof (cases "state s")
  case INITIALIZED
  with assms show ?thesis
    by (auto simp: step_def Let_def updateState_def dest!: case_BOUNDARY_Next)
next
  case BOUNDARY
  with assms show ?thesis by (auto simp: step_def Let_def dest!: case_BOUNDARY_Next)
next
  case HEADER_NAME_START
  with assms show ?thesis
    by (auto simp: step_def Let_def updateState_def mark_def dest!: case_HEADER_NAME_Next)
next
  case HEADER_NAME
  with assms show ?thesis by (auto simp: step_def Let_def dest!: case_HEADER_NAME_Next)
next
  case HEADER_VALUE_START
  with assms show ?thesis
    by (auto simp: step_def Let_def updateState_def mark_def split: if_splits
        dest!: case_HEADER_VALUE_Next)
next
  case HEADER_VALUE
  with assms show ?thesis by (auto simp: step_def Let_def dest!: case_HEADER_VALUE_Next)
next
  case HEADER_VALUE_END
  with assms show ?thesis
    by (auto simp: step_def Let_def updateState_def done_error_def split: if_splits)
next
  case HEADERS_END
  with assms show ?thesis
    by (auto simp: step_def Let_def updateState_def done_error_def split: if_splits)
next
  case PART_DATA_START
  with assms show ?thesis
    by (auto simp: step_def Let_def updateState_def mark_def dest!: case_PART_DATA_Next)
next
  case PART_DATA
  with assms show ?thesis by (auto simp: step_def Let_def dest!: case_PART_DATA_Next)
next
  case END
  with assms show ?thesis by (simp add: step_def)
qed

lemma step_Return:
  assumes "step boundary chunk curPos s = Return s' evs r"
  shows "evs = [] \<and>
         ((r = None \<and> s' = s \<and> state s = END) \<or>
          ((\<exists>msg. r = Some (ParseError msg)) \<and> error s' \<and> state s' \<noteq> END))"
proof (cases "state s")
  case INITIALIZED
  with assms show ?thesis
    by (auto simp: step_def Let_def updateState_def setErrored_def dest!: case_BOUNDARY_Return)
next
  case BOUNDARY
  with assms show ?thesis
    by (auto simp: step_def Let_def setErrored_def dest!: case_BOUNDARY_Return)
next
  case HEADER_NAME_START
  with assms show ?thesis
    by (auto simp: step_def Let_def updateState_def mark_def setErrored_def
        dest!: case_HEADER_NAME_Return)
next
  case HEADER_NAME
  with assms show ?thesis
    by (auto simp: step_def Let_def setErrored_def dest!: case_HEADER_NAME_Return)
next
  case HEADER_VALUE_START
  with assms show ?thesis
    by (auto simp: step_def Let_def case_HEADER_VALUE_Return split: if_splits)
next
  case HEADER_VALUE
  with assms show ?thesis by (auto simp: step_def Let_def case_HEADER_VALUE_Return)
next
  case HEADER_VALUE_END
  with assms show ?thesis
    by (auto simp: step_def Let_def done_error_def setErrored_def split: if_splits)
next
  case HEADERS_END
  with assms show ?thesis
    by (auto simp: step_def Let_def done_error_def setErrored_def split: if_splits)
next
  case PART_DATA_START
  with assms show ?thesis by (auto simp: step_def Let_def case_PART_DATA_Return)
next
  case PART_DATA
  with assms show ?thesis by (auto simp: step_def Let_def case_PART_DATA_Return)
next
  case END
  with assms show ?thesis by (simp add: step_def)
qed

lemma trailing_props:
  "trailing chunk curPos s = (s', evs) \<Longrightarrow>
     error s' = error s \<and> state s' = state s \<and> no_end evs"
  by (auto simp: trailing_def Let_def split: prod.splits if_splits dest!: emitSpan_eq)

lemma loop_ok:
  "\<not> error s \<Longrightarrow> no_end evs \<Longrightarrow> ok_result (loop boundary chunk curPos s evs)"
proof (induction boundary chunk curPos s evs rule: loop.induct)
  case (1 boundary chunk curPos s evs)
  show ?case
  proof (cases "curPos < length chunk")
    case False
    obtain s' evs' where t: "trailing chunk curPos s = (s', evs')" by fastforce
    from False t have "loop boundary chunk curPos s evs = (s', evs @ evs', None)"
      by (subst loop.simps) simp
    with trailing_props[OF t] 1 show ?thesis by (simp add: ok_result_def)
  next
    case True
    show ?thesis
    proof (cases "step boundary chunk curPos s")
      case (Next s' pos' evs')
      with True have eq: "loop boundary chunk curPos s evs = loop boundary chunk pos' s' (evs @ evs')"
        by (subst loop.simps) simp
      from step_Next[OF Next] "1.prems" have "\<not> error s'" "no_end (evs @ evs')" by simp_all
      with "1.IH"[OF True Next] eq show ?thesis by simp
    next
      case (Return s' evs' e)
      with True have eq: "loop boundary chunk curPos s evs = (s', evs @ evs', e)"
        by (subst loop.simps) simp
      from step_Return[OF Return] "1.prems" eq show ?thesis
        by (auto simp: ok_result_def)
    qed
  qed
qed

lemma transform_errored: "error s \<Longrightarrow> transform boundary chunk s = (s, [], None)"
  by (simp add: transform_def hasErrored_def)

lemma transform_ok: "\<not> error s \<Longrightarrow> ok_result (transform boundary chunk s)"
  by (simp add: transform_def hasErrored_def loop_ok)

lemma transform_END:
  assumes "state s = END"
  shows "transform boundary chunk s = (s, [], None)"
proof (cases "error s")
  case True
  then show ?thesis by (rule transform_errored)
next
  case False
  show ?thesis
  proof (cases chunk)
    case Nil
    with False show ?thesis
      by (subst transform_def, subst loop.simps)
         (simp add: hasErrored_def trailing_def emitSpan_def Let_def split: option.splits)
  next
    case (Cons c cs)
    with False assms show ?thesis
      by (subst transform_def, subst loop.simps) (simp add: hasErrored_def step_def)
  qed
qed

lemma feed_errored: "error s \<Longrightarrow> feed boundary s chunks = (s, [], [])"
  by (induction chunks) (simp_all add: transform_errored)

lemma feed_END: "state s = END \<Longrightarrow> feed boundary s chunks = (s, [], [])"
  by (induction chunks) (simp_all add: transform_END)

lemma feed_append:
  "feed boundary s (xs @ ys) =
     (case feed boundary s xs of (s1, e1, r1) \<Rightarrow>
        (case feed boundary s1 ys of (s2, e2, r2) \<Rightarrow> (s2, e1 @ e2, r1 @ r2)))"
  by (induction xs arbitrary: s) (auto split: prod.splits)

lemma feed_ok: "\<not> error s \<Longrightarrow> ok_session (feed boundary s chunks)"
proof (induction chunks arbitrary: s)
  case Nil
  then show ?case by (simp add: ok_session_def)
next
  case (Cons chunk chunks)
  obtain s1 e1 r1 where t: "transform boundary chunk s = (s1, e1, r1)"
    by (metis prod_cases3)
  from transform_ok[OF Cons.prems, of boundary chunk] t
  have ok1: "ok_result (s1, e1, r1)" by simp
  show ?case
  proof (cases r1)
    case None
    with ok1 have "\<not> error s1" "no_end e1" by (simp_all add: ok_result_def)
    with Cons.IH[of s1] t None show ?thesis
      by (auto simp: ok_session_def split: prod.splits list.splits)
  next
    case (Some x)
    with ok1 have "error s1" "no_end e1" "state s1 \<noteq> END" "\<exists>msg. x = ParseError msg"
      by (simp_all add: ok_result_def)
    with t Some feed_errored[of s1 boundary chunks] show ?thesis
      by (auto simp: ok_session_def)
  qed
qed

lemma newByteParser_fresh: "\<not> error (newByteParser boundary)"
  by (simp add: newByteParser_def newParserState_def)

text \<open>
  The byte parser at the end of its input, used as a stream of its own: chunks are
  written and the stream is ended, which runs its \<open>finish\<close> handler. The parser is then
  in some state \<open>s\<close>, has emitted the events \<open>evs\<close> and raised the errors \<open>es\<close>. If \<open>s\<close> is
  not the end state, the handler raises the parse error for an unexpected end of the
  message and no \<open>end\<close> signal is emitted at all. If \<open>s\<close> is the end state, no error was
  raised, and the \<open>end\<close> signal is emitted, once, as the last event.
\<close>

lemma byte_parser_end_of_input:
  assumes "feed boundary (newByteParser boundary) chunks = (s, evs, es)"
  shows "(state s \<noteq> END \<longrightarrow>
            parse boundary chunks = (setErrored s, evs, es @ [ParseError msg_unexpected_end])
            \<and> Signal endOfMessage \<notin> set evs)
       \<and> (state s = END \<longrightarrow>
            parse boundary chunks = (s, evs @ [Signal endOfMessage], [])
            \<and> Signal endOfMessage \<notin> set evs)"
proof -
  from feed_ok[OF newByteParser_fresh, of boundary boundary chunks] assms
  have ok: "ok_session (s, evs, es)" by simp
  then have ne: "Signal endOfMessage \<notin> set evs"
    by (simp add: ok_session_def no_end_def)
  from ok have "state s = END \<Longrightarrow> es = []"
    by (cases es) (simp_all add: ok_session_def)
  with ne assms show ?thesis
    by (simp add: parse_def on_finish_def)
qed

text \<open>
  The end state ignores its input: whatever is fed to a parser in the end state, no
  event is emitted, no error is raised and the state is unchanged, so that the end of
  the input still gives the \<open>end\<close> signal.
\<close>

lemma END_ignores_input:
  "state s = END \<Longrightarrow> feed boundary s chunks = (s, [], []) \<and> on_finish s = (s, [Signal endOfMessage], None)"
  by (simp add: feed_END on_finish_def)

lemma emitError_simps [simp]:
  "mp_error (emitError e s)" "parts (emitError e s) = parts s"
  "emitted (emitError e s) = emitted s @ [ErrorOut e]"
  "maxParts (emitError e s) = maxParts s" "maxPartSize (emitError e s) = maxPartSize s"
  "maxTotalSize (emitError e s) = maxTotalSize s" "totalSize (emitError e s) = totalSize s"
  "curPartState (emitError e s) = curPartState s" "byteParser (emitError e s) = None"
  "mp_boundary (emitError e s) = mp_boundary s" "deferred (emitError e s) = deferred s"
  by (simp_all add: emitError_def)

lemma set_curPart_simps [simp]:
  "mp_error (set_curPart p s) = mp_error s" "emitted (set_curPart p s) = emitted s"
  "maxParts (set_curPart p s) = maxParts s" "maxPartSize (set_curPart p s) = maxPartSize s"
  "maxTotalSize (set_curPart p s) = maxTotalSize s" "totalSize (set_curPart p s) = totalSize s"
  "curPartState (set_curPart p s) = curPartState s" "byteParser (set_curPart p s) = byteParser s"
  "mp_boundary (set_curPart p s) = mp_boundary s" "deferred (set_curPart p s) = deferred s"
  "curPart (set_curPart p s) = Some p"
  "parts (set_curPart p s) = butlast (parts s) @ [p]"
  by (simp_all add: set_curPart_def curPart_def)

lemma set_curPart_length: "parts s \<noteq> [] \<Longrightarrow> length (parts (set_curPart p s)) = length (parts s)"
  by (simp add: set_curPart_def)

lemma curPart_Some: "curPart s = Some p \<Longrightarrow> parts s \<noteq> [] \<and> last (parts s) = p"
  by (auto simp: curPart_def split: if_splits)

lemma onHeaderName_frame: "onHeaderName chunk s = Some s' \<Longrightarrow> frame 0 s s'"
  by (auto simp: onHeaderName_def frame_def tmf_def split: option.splits)

lemma onHeaderValue_frame: "onHeaderValue pf chunk s = Some s' \<Longrightarrow> frame 0 s s'"
  by (auto simp: onHeaderValue_def frame_def tmf_def Let_def split: option.splits)

lemma handlePart_frame: "frame 0 s (handlePart s)"
  by (auto simp: handlePart_def frame_def tmf_def split: option.splits)

lemma onHeadersEnd_frame: "onHeadersEnd s = Some s' \<Longrightarrow> frame 1 s s'"
proof -
  assume a: "onHeadersEnd s = Some s'"
  then obtain c where c: "curPartState s = Some c" by (auto simp: onHeadersEnd_def split: option.splits)
  with a obtain p where s': "s' = handlePart (s\<lparr>curPartState := Some (c\<lparr>cps_partSize := Some 0, cps_tmp := Some []\<rparr>), parts := parts s @ [p]\<rparr>)"
    by (auto simp: onHeadersEnd_def Let_def)
  show ?thesis unfolding s'
    using handlePart_frame[of "s\<lparr>curPartState := Some (c\<lparr>cps_partSize := Some 0, cps_tmp := Some []\<rparr>), parts := parts s @ [p]\<rparr>"]
    by (simp add: frame_def tmf_def)
qed

lemma part_error_frame: "frame 0 s (part_error write_after_end part s)"
  by (simp add: part_error_def write_after_end_def frame_def tmf_def)

lemma frame_trans0: "frame 0 s s1 \<Longrightarrow> frame 0 s1 s2 \<Longrightarrow> frame 0 s s2"
  by (simp add: frame_def)

lemma set_curPart_frame: "curPart s = Some part \<Longrightarrow> frame 0 s (set_curPart p s)"
  by (auto simp: frame_def tmf_def set_curPart_length dest!: curPart_Some)

lemma writePart_frame: "curPart s = Some part \<Longrightarrow> frame 0 s (writePart buf part s)"
  by (auto simp: writePart_def Part_write_def part_error_frame set_curPart_frame)

lemma frame_upd:
  "frame k s (s1\<lparr>curPartState := x\<rparr>) = frame k s s1"
  "frame k s (s1\<lparr>totalSize := y\<rparr>) = frame k s s1"
  "frame k s (s1\<lparr>deferred := d\<rparr>) = frame k s s1"
  by (simp_all add: frame_def tmf_def)

lemma curPart_upd:
  "curPart (s\<lparr>curPartState := x\<rparr>) = curPart s"
  "curPart (s\<lparr>totalSize := y\<rparr>) = curPart s"
  "curPart (s\<lparr>deferred := d\<rparr>) = curPart s"
  by (simp_all add: curPart_def)

lemma onPartData_frame: "onPartData chunk s = Some s' \<Longrightarrow> frame 0 s s'"
proof -
  assume a: "onPartData chunk s = Some s'"
  have r: "frame 0 s s" by (simp add: frame_def)
  have e: "\<And>err s1. frame 0 s s1 \<Longrightarrow> err \<noteq> TooManyParts \<Longrightarrow> frame 0 s (emitError err s1)"
    by (simp add: frame_def tmf_def)
  have w: "\<And>part buf s1. frame 0 s s1 \<Longrightarrow> curPart s1 = Some part \<Longrightarrow> frame 0 s (writePart buf part s1)"
    using writePart_frame frame_trans0 by blast
  from a show ?thesis
    by (auto simp: onPartData_def Let_def frame_upd curPart_upd r
        split: option.splits if_splits prod.splits intro!: e w)
qed

lemma endPart_frame: "curPart s = Some part \<Longrightarrow> frame 0 s (endPart buf part s)"
proof -
  assume p: "curPart s = Some part"
  obtain part' err where pe: "Part_end buf part = (part', err)" by fastforce
  have 1: "frame 0 s (set_curPart part' s)" using p by (rule set_curPart_frame)
  have 2: "frame 0 (set_curPart part' s) (part_error write_after_end part (set_curPart part' s))"
    by (rule part_error_frame)
  have 3: "frame 0 (set_curPart part' s) ((set_curPart part' s)\<lparr>deferred := deferred s @ [length (parts s) - 1]\<rparr>)"
    by (simp add: frame_def tmf_def)
  from pe 1 frame_trans0[OF 1 2] frame_trans0[OF 1 3] show ?thesis
    by (simp add: endPart_def)
qed

lemma onPartEnd_frame: "onPartEnd s = Some s' \<Longrightarrow> frame 0 s s'"
proof -
  assume a: "onPartEnd s = Some s'"
  then obtain part where p: "curPart s = Some part"
    by (auto simp: onPartEnd_def split: option.splits)
  have e: "frame 0 s (emitError UnsupportedEncoding s)" by (simp add: frame_def tmf_def)
  from a p e endPart_frame[OF p] show ?thesis
    by (auto simp: onPartEnd_def Let_def split: option.splits if_splits)
qed

lemma frame_trans: "frame j s s1 \<Longrightarrow> frame k s1 s2 \<Longrightarrow> frame (j + k) s s2"
  by (simp add: frame_def)

lemma frame_refl: "frame 0 s s"
  by (simp add: frame_def)

lemma wrap_errored: "mp_error s \<Longrightarrow> wrapInErrorChecker pf ev s = Some s"
  by (simp add: wrapInErrorChecker_def)

lemma deliver_errored: "mp_error s \<Longrightarrow> deliver pf evs s = Some s"
  by (induction evs) (simp_all add: wrap_errored)

lemma deliver_append:
  "deliver pf (xs @ ys) s =
     (case deliver pf xs s of None \<Rightarrow> None | Some s' \<Rightarrow> deliver pf ys s')"
  by (induction xs arbitrary: s) (auto split: option.splits)

lemma wrap_Data_frame:
  assumes "wrapInErrorChecker pf (Data n chunk) s = Some s'"
    and "n = headerName \<or> n = headerValue \<or> n = partData"
  shows "frame 0 s s'"
proof (cases "mp_error s")
  case True
  with assms show ?thesis by (simp add: wrapInErrorChecker_def frame_refl)
next
  case False
  with assms show ?thesis
    by (auto simp: wrapInErrorChecker_def listener_def
        dest: onHeaderName_frame onHeaderValue_frame onPartData_frame)
qed

lemma deliver_header_fields_frame:
  "deliver pf (concat (map (\<lambda>(n, v). [Data headerName n, Data headerValue v]) hs)) s = Some s'
     \<Longrightarrow> frame 0 s s'"
proof (induction hs arbitrary: s)
  case Nil
  then show ?case by (simp add: frame_refl)
next
  case (Cons h hs)
  obtain n v where h: "h = (n, v)" by (cases h)
  from Cons.prems h obtain s1 s2 where
    1: "wrapInErrorChecker pf (Data headerName n) s = Some s1" and
    2: "wrapInErrorChecker pf (Data headerValue v) s1 = Some s2" and
    3: "deliver pf (concat (map (\<lambda>(n, v). [Data headerName n, Data headerValue v]) hs)) s2 = Some s'"
    by (auto split: option.splits)
  from wrap_Data_frame[OF 1] wrap_Data_frame[OF 2] Cons.IH[OF 3]
  show ?case by (auto simp: frame_def)
qed

lemma deliver_body_frame:
  "deliver pf (map (Data partData) bs) s = Some s' \<Longrightarrow> frame 0 s s'"
proof (induction bs arbitrary: s)
  case Nil
  then show ?case by (simp add: frame_refl)
next
  case (Cons b bs)
  from Cons.prems obtain s1 where
    1: "wrapInErrorChecker pf (Data partData b) s = Some s1" and
    2: "deliver pf (map (Data partData) bs) s1 = Some s'"
    by (auto split: option.splits)
  from wrap_Data_frame[OF 1] Cons.IH[OF 2] show ?case by (auto simp: frame_def)
qed

text \<open>
  One part, begun below the limit: no \<open>TooManyParts\<close> error comes of it, and unless the
  session errors the part is added to \<open>parts\<close>.
\<close>

lemma deliver_part:
  assumes d: "deliver pf (events_of_part p) s = Some s'"
    and below: "int (length (parts s)) < maxParts s - 1"
  shows "maxParts s' = maxParts s \<and> tmf s' = tmf s
         \<and> (mp_error s' \<or> length (parts s') = length (parts s) + 1)"
proof (cases "mp_error s")
  case True
  from d have "s' = s" unfolding deliver_errored[OF True] by simp
  with True show ?thesis by simp
next
  case False
  let ?hs = "concat (map (\<lambda>(n, v). [Data headerName n, Data headerValue v]) (fst p))"
  from False below have b: "wrapInErrorChecker pf (Signal partBegin) s
      = Some (s\<lparr>curPartState := Some
             \<lparr> cps_name = None, cps_filename = None, cps_contentId = None,
               cps_contentType = None, cps_transferEncoding = ''binary'', cps_headers = [],
               cps_headerName = None, cps_partSize = None, cps_tmp = None \<rparr>\<rparr>)"
    (is "_ = Some ?s0")
    by (simp add: wrapInErrorChecker_def listener_def onPartBegin_def)
  have f0: "frame 0 s ?s0" by (simp add: frame_def tmf_def)
  from d b have d1: "deliver pf (?hs @ [Signal headersEnd] @ map (Data partData) (snd p) @ [Signal partEnd]) ?s0 = Some s'"
    by (simp add: events_of_part_def)
  then obtain s1 where 1: "deliver pf ?hs ?s0 = Some s1"
    and d2: "deliver pf ([Signal headersEnd] @ map (Data partData) (snd p) @ [Signal partEnd]) s1 = Some s'"
    by (auto simp: deliver_append split: option.splits)
  from deliver_header_fields_frame[OF 1] have f1: "frame 0 ?s0 s1" .
  show ?thesis
  proof (cases "mp_error s1")
    case True
    from d2 have "s' = s1" unfolding deliver_errored[OF True] by simp
    with f0 f1 True show ?thesis by (simp add: frame_def)
  next
    case e1: False
    from d2 obtain s2 where 2: "wrapInErrorChecker pf (Signal headersEnd) s1 = Some s2"
      and d3: "deliver pf (map (Data partData) (snd p) @ [Signal partEnd]) s2 = Some s'"
      by (auto split: option.splits)
    from 2 e1 have "onHeadersEnd s1 = Some s2"
      by (simp add: wrapInErrorChecker_def listener_def)
    then have f2: "frame 1 s1 s2" by (rule onHeadersEnd_frame)
    from d3 obtain s3 where 3: "deliver pf (map (Data partData) (snd p)) s2 = Some s3"
      and d4: "deliver pf [Signal partEnd] s3 = Some s'"
      by (auto simp: deliver_append split: option.splits)
    from deliver_body_frame[OF 3] have f3: "frame 0 s2 s3" .
    have f4: "frame 0 s3 s'"
    proof (cases "mp_error s3")
      case True
      with d4 show ?thesis by (simp add: wrap_errored frame_refl)
    next
      case False
      with d4 have "onPartEnd s3 = Some s'"
        by (simp add: wrapInErrorChecker_def listener_def split: option.splits)
      then show ?thesis by (rule onPartEnd_frame)
    qed
    from f0 f1 f2 f3 f4 show ?thesis by (simp add: frame_def)
  qed
qed

lemma deliver_parts:
  assumes "deliver pf (events_of ps) s = Some s'"
    and "int (length (parts s)) + int (length ps) \<le> maxParts s - 1"
  shows "maxParts s' = maxParts s \<and> tmf s' = tmf s
         \<and> (mp_error s' \<or> length (parts s') = length (parts s) + length ps)"
  using assms
proof (induction ps arbitrary: s)
  case Nil
  then show ?case by (simp add: events_of_def)
next
  case (Cons p ps)
  from Cons.prems(1) obtain s1 where 1: "deliver pf (events_of_part p) s = Some s1"
    and 2: "deliver pf (events_of ps) s1 = Some s'"
    by (auto simp: events_of_def deliver_append split: option.splits)
  from Cons.prems(2) have "int (length (parts s)) < maxParts s - 1" by simp
  from deliver_part[OF 1 this] have p1: "maxParts s1 = maxParts s" "tmf s1 = tmf s"
    "mp_error s1 \<or> length (parts s1) = length (parts s) + 1" by simp_all
  show ?case
  proof (cases "mp_error s1")
    case True
    from 2 have "s' = s1" unfolding deliver_errored[OF True] by simp
    with p1 True show ?thesis by simp
  next
    case False
    with p1 have l: "length (parts s1) = length (parts s) + 1" by simp
    with Cons.prems(2) p1 have "int (length (parts s1)) + int (length ps) \<le> maxParts s1 - 1"
      by simp
    from Cons.IH[OF 2 this] p1 l show ?thesis by auto
  qed
qed

lemma handlePart_end_unvalued: "(handlePart_end pf p)\<lparr>part_value := v\<rparr> = p\<lparr>part_value := v\<rparr>"
  by (cases "part_type p") (simp_all add: handlePart_end_def Let_def)

lemma handlePart_end_OBJECT:
  "part_type p = OBJECT \<Longrightarrow>
     handlePart_end pf p
       = p\<lparr>part_value := Some (case JSON_parse pf (concat (part_written p)) of
                                 Some v \<Rightarrow> v | None \<Rightarrow> JObject [])\<rparr>"
  by (simp add: handlePart_end_def Let_def)

lemma end_listener_parts:
  "map (\<lambda>p. p\<lparr>part_value := None\<rparr>) (parts (end_listener pf j s))
     = map (\<lambda>p. p\<lparr>part_value := None\<rparr>) (parts s)"
  by (auto simp: end_listener_def list_eq_iff_nth_eq nth_list_update handlePart_end_unvalued)

lemma unvalued_types:
  "map (\<lambda>p. p\<lparr>part_value := None\<rparr>) ps = map (\<lambda>p. p\<lparr>part_value := None\<rparr>) qs
     \<Longrightarrow> map part_type ps = map part_type qs"
proof -
  assume a: "map (\<lambda>p. p\<lparr>part_value := None\<rparr>) ps = map (\<lambda>p. p\<lparr>part_value := None\<rparr>) qs"
  have "map part_type (map (\<lambda>p. p\<lparr>part_value := None\<rparr>) ps)
      = map part_type (map (\<lambda>p. p\<lparr>part_value := None\<rparr>) qs)"
    by (simp only: a)
  then show ?thesis by (simp add: comp_def)
qed

lemma end_listener_fields [simp]:
  "mp_error (end_listener pf j s) = mp_error s" "deferred (end_listener pf j s) = deferred s"
  "emitted (end_listener pf j s) = emitted s @ announced (map part_type (parts s)) [j]"
  by (auto simp: end_listener_def announced_def)

lemma announced_Cons: "announced ts (d # ds) = announced ts [d] @ announced ts ds"
  by (simp add: announced_def)

lemma run_listeners:
  "map (\<lambda>p. p\<lparr>part_value := None\<rparr>) (parts (foldl (\<lambda>s' i. end_listener pf i s') s ds))
     = map (\<lambda>p. p\<lparr>part_value := None\<rparr>) (parts s)
   \<and> mp_error (foldl (\<lambda>s' i. end_listener pf i s') s ds) = mp_error s
   \<and> deferred (foldl (\<lambda>s' i. end_listener pf i s') s ds) = deferred s
   \<and> emitted (foldl (\<lambda>s' i. end_listener pf i s') s ds)
       = emitted s @ announced (map part_type (parts s)) ds"
proof (induction ds arbitrary: s)
  case Nil
  then show ?case by (simp add: announced_def)
next
  case (Cons d ds)
  have t: "map part_type (parts (end_listener pf d s)) = map part_type (parts s)"
    by (rule unvalued_types) (rule end_listener_parts)
  from Cons.IH[of "end_listener pf d s"] show ?case
    by (simp add: end_listener_parts t announced_Cons[of _ d ds])
qed

lemma tick_snoc:
  "deferred s = ds @ [i] \<Longrightarrow>
     tick pf s = end_listener pf i (foldl (\<lambda>s' j. end_listener pf j s') (s\<lparr>deferred := []\<rparr>) ds)"
  by (simp add: tick_def)

lemma errored_parser_drops_chunks:
  "mp_error s \<Longrightarrow> writeChunk pf chunk s = Inr s \<and> write_all pf chunks s = Some s"
proof -
  assume e: "mp_error s"
  then have 1: "\<And>c. writeChunk pf c s = Inr s" by (simp add: writeChunk_def)
  have "write_all pf chunks s = Some s" by (induction chunks) (simp_all add: 1)
  with 1 show ?thesis by simp
qed

lemma base64_char_pad: "\<not> base64_char (CHR ''='')"
  by (simp add: base64_char_def unbase64_def)

lemma dvd4_Suc:
  "4 dvd Suc (Suc (Suc (Suc n))) \<longleftrightarrow> 4 dvd n"
  "\<not> 4 dvd Suc (Suc (Suc 0))" "\<not> 4 dvd Suc (Suc 0)" "\<not> 4 dvd Suc 0"
  by presburger+

lemma sextets_bytes_append:
  "4 dvd length xs \<Longrightarrow> sextets_bytes (xs @ ys) = sextets_bytes xs @ sextets_bytes ys"
  by (induction xs rule: sextets_bytes.induct) (simp_all add: dvd4_Suc)

lemma map_filter_all:
  "\<forall>c\<in>set a. base64_char c \<Longrightarrow> length (List.map_filter unbase64 a) = length a"
  by (simp add: List.map_filter_def base64_char_def)

lemma map_filter_app: "List.map_filter f (a @ b) = List.map_filter f a @ List.map_filter f b"
  by (simp add: List.map_filter_def)

lemma decode_pads:
  assumes "list_all (\<lambda>c. c = CHR ''='') b"
  shows "base64_decode b = []"
proof (cases b)
  case Nil
  then show ?thesis by (simp add: base64_decode_def List.map_filter_def)
next
  case (Cons x xs)
  with assms show ?thesis by (simp add: base64_decode_def List.map_filter_def)
qed

lemma decode_split:
  assumes c: "canonical (a @ b)" and d: "4 dvd length a"
  shows "base64_decode (a @ b) = base64_decode a @ base64_decode b"
proof (cases "\<forall>c\<in>set a. base64_char c")
  case True
  then have np: "\<forall>c\<in>set a. c \<noteq> CHR ''=''" using base64_char_pad by auto
  then have tw: "takeWhile (\<lambda>c. c \<noteq> CHR ''='') (a @ b) = a @ takeWhile (\<lambda>c. c \<noteq> CHR ''='') b"
    by (simp add: takeWhile_append2)
  from np have ta: "takeWhile (\<lambda>c. c \<noteq> CHR ''='') a = a" by (simp add: takeWhile_eq_all_conv)
  from True d have "4 dvd length (List.map_filter unbase64 a)" by (simp add: map_filter_all)
  then show ?thesis
    by (simp add: base64_decode_def tw ta map_filter_app sextets_bytes_append)
next
  case False
  then obtain x where x: "x \<in> set a" "\<not> base64_char x" by auto
  from x have dw: "dropWhile base64_char (a @ b) = dropWhile base64_char a @ b"
    by (rule dropWhile_append1)
  with c have pa: "list_all (\<lambda>c. c = CHR ''='') (dropWhile base64_char a)"
    and pb: "list_all (\<lambda>c. c = CHR ''='') b"
    by (simp_all add: canonical_def)
  from x have ne: "dropWhile base64_char a \<noteq> []" by (auto simp: dropWhile_eq_Nil_conv)
  then obtain y ys where ys: "dropWhile base64_char a = y # ys"
    by (cases "dropWhile base64_char a") auto
  with pa have y: "y = CHR ''=''" by simp
  define tw where "tw = takeWhile base64_char a"
  have "takeWhile base64_char a @ dropWhile base64_char a = a" by (rule takeWhile_dropWhile_id)
  then have sp: "a = tw @ CHR ''='' # ys" unfolding ys y tw_def by (rule sym)
  have al: "\<And>c. c \<in> set tw \<Longrightarrow> c \<noteq> CHR ''=''"
    unfolding tw_def using base64_char_pad by (auto dest: set_takeWhileD)
  have t0: "takeWhile (\<lambda>c. c \<noteq> CHR ''='') (tw @ CHR ''='' # zs) = tw" for zs
    using al by (simp add: takeWhile_append2 takeWhile_eq_all_conv)
  have t1: "takeWhile (\<lambda>c. c \<noteq> CHR ''='') a = tw"
    by (simp add: sp t0)
  have t2: "takeWhile (\<lambda>c. c \<noteq> CHR ''='') (a @ b) = tw"
    by (simp add: sp t0)
  from t1 t2 decode_pads[OF pb] show ?thesis by (simp add: base64_decode_def)
qed

lemma canonical_suffix:
  assumes "canonical (a @ b)"
  shows "canonical b"
proof (cases "\<forall>c\<in>set a. base64_char c")
  case True
  then have "dropWhile base64_char (a @ b) = dropWhile base64_char b"
    by (simp add: dropWhile_append2)
  with assms show ?thesis by (simp add: canonical_def)
next
  case False
  then obtain x where x: "x \<in> set a" "\<not> base64_char x" by auto
  from x have "dropWhile base64_char (a @ b) = dropWhile base64_char a @ b"
    by (rule dropWhile_append1)
  with assms have pb: "list_all (\<lambda>c. c = CHR ''='') b" by (simp add: canonical_def)
  have "list_all (\<lambda>c. c = CHR ''='') (dropWhile base64_char b)"
    using pb by (induction b) (simp_all add: base64_char_pad)
  then show ?thesis by (simp add: canonical_def)
qed

lemma toString_ascii_append [simp]:
  "toString_ascii (a @ b) = toString_ascii a @ toString_ascii b"
  by (simp add: toString_ascii_def)

lemma base64_stream_decodes:
  "canonical (tmp @ toString_ascii (concat bs)) \<Longrightarrow>
     concat (fst (base64_stream tmp bs)) @ base64_decode (snd (base64_stream tmp bs))
       = base64_decode (tmp @ toString_ascii (concat bs))"
proof (induction bs arbitrary: tmp)
  case Nil
  then show ?case by (simp add: toString_ascii_def)
next
  case (Cons b bs)
  define t where "t = tmp @ toString_ascii b"
  define off where "off = (length t div 4) * 4"
  define rest where "rest = toString_ascii (concat bs)"
  have "tmp @ toString_ascii (concat (b # bs)) = t @ rest"
    by (simp add: t_def rest_def)
  also have "t = take off t @ drop off t" by simp
  finally have split: "tmp @ toString_ascii (concat (b # bs)) = take off t @ (drop off t @ rest)"
    by simp
  have "off \<le> length t" unfolding off_def by simp
  then have "length (take off t) = off" by simp
  then have d: "4 dvd length (take off t)" by (simp add: off_def)
  from Cons.prems split have c: "canonical (take off t @ (drop off t @ rest))" by simp
  from canonical_suffix[OF c] have "canonical (drop off t @ toString_ascii (concat bs))"
    by (simp add: rest_def)
  from Cons.IH[OF this]
  have ih: "concat (fst (base64_stream (drop off t) bs)) @ base64_decode (snd (base64_stream (drop off t) bs))
        = base64_decode (drop off t @ rest)"
    by (simp add: rest_def)
  have ch: "base64_chunk (Some tmp) b = (base64_decode (take off t), drop off t)"
    by (simp add: base64_chunk_def pending_def Let_def t_def off_def)
  have "concat (fst (base64_stream tmp (b # bs))) @ base64_decode (snd (base64_stream tmp (b # bs)))
      = base64_decode (take off t) @ base64_decode (drop off t @ rest)"
    using ih by (auto simp: ch split: prod.splits)
  also have "\<dots> = base64_decode (take off t @ (drop off t @ rest))"
    by (rule decode_split[OF c d, symmetric])
  finally show ?case by (simp only: split)
qed

lemma onPartData_base64_step:
  assumes inv: "in_base64_part s tmp n w"
    and l1: "n + int (length chunk) \<le> maxPartSize s"
    and l2: "totalSize s + int (length chunk) \<le> maxTotalSize s"
  shows "\<exists>s'. wrapInErrorChecker pf (Data partData chunk) s = Some s'
           \<and> in_base64_part s' (snd (base64_chunk (Some tmp) chunk)) (n + int (length chunk))
                (w @ [fst (base64_chunk (Some tmp) chunk)])
           \<and> totalSize s' = totalSize s + int (length chunk)
           \<and> maxPartSize s' = maxPartSize s \<and> maxTotalSize s' = maxTotalSize s
           \<and> errors_of s' = errors_of s"
proof -
  from inv obtain c part where ne: "\<not> mp_error s" and c: "curPartState s = Some c"
    "cps_tmp c = Some tmp" "cps_partSize c = Some n" and p: "curPart s = Some part"
    "part_transferEncoding part = Some ''base64''" "\<not> part_ended part" "part_written part = w"
    by (auto simp: in_base64_part_def split: option.splits)
  obtain buf rest where ch: "base64_chunk (Some tmp) chunk = (buf, rest)" by fastforce
  let ?c1 = "c\<lparr>cps_partSize := Some (n + int (length chunk))\<rparr>"
  let ?s2 = "s\<lparr>curPartState := Some ?c1, totalSize := totalSize s + int (length chunk)\<rparr>"
  let ?s' = "set_curPart (part\<lparr>part_written := part_written part @ [buf]\<rparr>) (?s2\<lparr>curPartState := Some (?c1\<lparr>cps_tmp := Some rest\<rparr>)\<rparr>)"
  from p(1) have cp2: "curPart ?s2 = Some part" by (simp add: curPart_def split: if_splits)
  from c p l1 l2 ch cp2 have "onPartData chunk s = Some ?s'"
    by (simp add: onPartData_def Let_def writePart_def Part_write_def)
  with ne have w: "wrapInErrorChecker pf (Data partData chunk) s = Some ?s'"
    by (simp add: wrapInErrorChecker_def listener_def)
  from ne c p have "in_base64_part ?s' rest (n + int (length chunk)) (w @ [buf])"
    by (simp add: in_base64_part_def)
  with w ch show ?thesis by (simp add: errors_of_def)
qed

lemma deliver_base64_body:
  assumes "in_base64_part s tmp n w"
    and "n + int (length (concat bs)) \<le> maxPartSize s"
    and "totalSize s + int (length (concat bs)) \<le> maxTotalSize s"
  shows "\<exists>s'. deliver pf (map (Data partData) bs) s = Some s'
           \<and> in_base64_part s' (snd (base64_stream tmp bs)) (n + int (length (concat bs)))
                (w @ fst (base64_stream tmp bs))
           \<and> errors_of s' = errors_of s"
  using assms
proof (induction bs arbitrary: s tmp n w)
  case Nil
  then show ?case by simp
next
  case (Cons b bs)
  from Cons.prems have l1: "n + int (length b) \<le> maxPartSize s"
    and l2: "totalSize s + int (length b) \<le> maxTotalSize s"
    by simp_all
  from onPartData_base64_step[OF Cons.prems(1) l1 l2, of pf]
  obtain s1 where 1: "wrapInErrorChecker pf (Data partData b) s = Some s1"
    and i1: "in_base64_part s1 (snd (base64_chunk (Some tmp) b)) (n + int (length b))
                (w @ [fst (base64_chunk (Some tmp) b)])"
    and f1: "totalSize s1 = totalSize s + int (length b)" "maxPartSize s1 = maxPartSize s"
      "maxTotalSize s1 = maxTotalSize s" "errors_of s1 = errors_of s"
    by blast
  from Cons.prems f1 have m1: "(n + int (length b)) + int (length (concat bs)) \<le> maxPartSize s1"
    and m2: "totalSize s1 + int (length (concat bs)) \<le> maxTotalSize s1"
    by simp_all
  from Cons.IH[OF i1 m1 m2] obtain s' where
    2: "deliver pf (map (Data partData) bs) s1 = Some s'"
    and i2: "in_base64_part s' (snd (base64_stream (snd (base64_chunk (Some tmp) b)) bs))
               (n + int (length b) + int (length (concat bs)))
               ((w @ [fst (base64_chunk (Some tmp) b)])
                  @ fst (base64_stream (snd (base64_chunk (Some tmp) b)) bs))"
    and e2: "errors_of s' = errors_of s1"
    by blast
  from 1 2 have d: "deliver pf (map (Data partData) (b # bs)) s = Some s'" by simp
  have st: "base64_stream tmp (b # bs) =
      (fst (base64_chunk (Some tmp) b) # fst (base64_stream (snd (base64_chunk (Some tmp) b)) bs),
       snd (base64_stream (snd (base64_chunk (Some tmp) b)) bs))"
    by (simp split: prod.splits)
  have "in_base64_part s' (snd (base64_stream tmp (b # bs)))
      (n + int (length (concat (b # bs)))) (w @ fst (base64_stream tmp (b # bs)))"
    unfolding st using i2 by (simp add: add.assoc)
  with d e2 f1 show ?case by auto
qed

lemma curPart_emitted [simp]: "curPart (s\<lparr>emitted := x\<rparr>) = curPart s"
  by (simp add: curPart_def)

lemma onPartEnd_base64:
  assumes inv: "in_base64_part s tmp n w"
  shows "\<exists>s' part'. wrapInErrorChecker pf (Signal partEnd) s = Some s'
           \<and> curPart s' = Some part' \<and> part_ended part'
           \<and> part_written part' = w @ [base64_decode tmp]
           \<and> errors_of s' = errors_of s"
proof -
  from inv obtain c part where ne: "\<not> mp_error s" and c: "curPartState s = Some c"
    "cps_tmp c = Some tmp" and p: "curPart s = Some part"
    "part_transferEncoding part = Some ''base64''" "\<not> part_ended part" "part_written part = w"
    by (auto simp: in_base64_part_def split: option.splits)
  from c p have e: "onPartEnd s = Some (endPart (Some (base64_decode tmp)) part s)"
    by (simp add: onPartEnd_def Let_def)
  with ne have w: "wrapInErrorChecker pf (Signal partEnd) s
      = Some (endPart (Some (base64_decode tmp)) part s)"
    by (simp add: wrapInErrorChecker_def listener_def)
  from p have pe: "Part_end (Some (base64_decode tmp)) part
      = (part\<lparr>part_written := w @ [base64_decode tmp], part_ended := True\<rparr>, False)"
    by (simp add: Part_end_def Part_write_def)
  from p w show ?thesis
    by (auto simp: endPart_def pe errors_of_def curPart_upd)
qed

lemma Part_get_id: "Part_get ''id'' part = None"
  by (simp add: Part_get_def)

lemma setup_headers_ignore_contentId:
  "setup_headers (part\<lparr>part_contentId := x\<rparr>) = setup_headers part"
  by (simp add: setup_headers_def Part_get_def)

section \<open>The claims\<close>

text \<open>
  C1 (chunk-split invariance). The claim asks that a valid message delivered in two
  chunks gives the same events, fragments concatenated, as the message delivered in
  one chunk. The code does not do that: \<open>emit\<close> leaves a marker in place when the span
  it is asked to emit is empty. For \<open>message_data\<close> cut at offset 20, just before the CR of
  the closing delimiter, the \<open>partData\<close> marker moved to offset 0 of the second chunk is
  never cleared, and after \<open>partEnd\<close> the whole second chunk (the delimiter itself) is
  emitted as part data. Delivered whole, the message gives the expected events.
\<close>

theorem chunk_split_stale_marker:
  "coalesce (events (parse ''b'' [message_data])) =
     [Signal partBegin, Data headerName ''Name'', Data headerValue ''v'', Signal headersEnd,
      Data partData ''data'', Signal partEnd, Signal endOfMessage]
   \<and> coalesce (events (parse ''b'' (split_at 20 message_data))) =
     [Signal partBegin, Data headerName ''Name'', Data headerValue ''v'', Signal headersEnd,
      Data partData ''data'', Signal partEnd, Data partData (CRLF @ ''--b--''),
      Signal endOfMessage]"
  by code_simp

text \<open>
  C2 (header-name bytes). The claim asks that every ASCII letter, \<open>z\<close> and \<open>Z\<close> included,
  is accepted in a header name. The code tests the lower-cased byte with
  \<open>_.inRange(lowByte, CHARS.A, CHARS.Z)\<close>, whose upper end is exclusive: in any state
  of the parser \<open>z\<close> and \<open>Z\<close> are answered with the error for an invalid character,
  while \<open>y\<close> is accepted. A message with the header \<open>Size\<close> fails at the \<open>z\<close>.
\<close>

theorem header_name_z_rejected:
  "case_HEADER_NAME chunk curPos (CHR ''z'') s = done_error msg_invalid_name s []
   \<and> case_HEADER_NAME chunk curPos (CHR ''Z'') s = done_error msg_invalid_name s []
   \<and> case_HEADER_NAME chunk curPos (CHR ''y'') s = Next (s\<lparr>index := index s + 1\<rparr>) (curPos + 1) []
   \<and> snd (parse ''b'' [message_size_header]) =
        ([Signal partBegin], [ParseError msg_invalid_name, ParseError msg_unexpected_end])"
proof -
  have z: "\<not> inRange (CHARS_lower (CHR ''z'')) CHARS_A CHARS_Z"
    and Z: "\<not> inRange (CHARS_lower (CHR ''Z'')) CHARS_A CHARS_Z"
    and y: "inRange (CHARS_lower (CHR ''y'')) CHARS_A CHARS_Z"
    by (simp_all add: inRange_def CHARS_lower_def CHARS_A_def CHARS_Z_def)
  have "snd (parse ''b'' [message_size_header]) =
        ([Signal partBegin], [ParseError msg_invalid_name, ParseError msg_unexpected_end])"
    by code_simp
  with z Z y show ?thesis
    by (simp add: case_HEADER_NAME_def CHARS_HYPHEN_def CHARS_COLON_def CHARS_CR_def)
qed

theorem header_name_z_rejected_witness:
  "case_HEADER_NAME ''z'' 0 (CHR ''z'') (newByteParser ''b'')
     = done_error msg_invalid_name (newByteParser ''b'') []"
  using header_name_z_rejected [of "''z''" 0 "newByteParser ''b''"] by simp

text \<open>
  C3 (threshold of \<open>maxParts\<close>). A session that has not begun any part, with a limit
  \<open>maxParts\<close> of at least 1, is given the events of a message. When the message has at
  most \<open>maxParts - 1\<close> parts, no \<open>TooManyParts\<close> error is emitted. When it has more, and
  its first \<open>maxParts - 1\<close> parts are handled without an error, leaving the session in
  \<open>s1\<close>, then these parts are all in \<open>parts\<close>, the \<open>partBegin\<close> of the next part raises
  \<open>TooManyParts\<close>, and the session ends as \<open>s1\<close> with that error recorded: nothing of the
  headers of the offending part, nor of what follows it, is processed.
\<close>

theorem maxParts_threshold:
  assumes fresh: "parts s0 = []" "\<not> mp_error s0" "ErrorOut TooManyParts \<notin> set (emitted s0)"
    and pos: "1 \<le> maxParts s0"
  shows "(int (length msg) \<le> maxParts s0 - 1 \<longrightarrow>
            (\<forall>s. deliver pf (events_of msg) s0 = Some s
                  \<longrightarrow> ErrorOut TooManyParts \<notin> set (emitted s)))
       \<and> (int (length msg) > maxParts s0 - 1 \<longrightarrow>
            (\<forall>s1. deliver pf (events_of (take (nat (maxParts s0 - 1)) msg)) s0 = Some s1
                     \<and> \<not> mp_error s1
                   \<longrightarrow> length (parts s1) = nat (maxParts s0 - 1)
                       \<and> deliver pf (events_of msg) s0 = Some (emitError TooManyParts s1)))"
proof (intro conjI impI allI)
  fix s
  assume "int (length msg) \<le> maxParts s0 - 1" and "deliver pf (events_of msg) s0 = Some s"
  with deliver_parts[of pf msg s0 s] fresh show "ErrorOut TooManyParts \<notin> set (emitted s)"
    by (simp add: tmf_def)
next
  fix s1
  let ?n = "nat (maxParts s0 - 1)"
  assume more: "maxParts s0 - 1 < int (length msg)"
    and "deliver pf (events_of (take ?n msg)) s0 = Some s1 \<and> \<not> mp_error s1"
  then have d: "deliver pf (events_of (take ?n msg)) s0 = Some s1" and ne: "\<not> mp_error s1"
    by simp_all
  from more pos have len: "length (take ?n msg) = ?n" by simp
  with pos fresh have "int (length (parts s0)) + int (length (take ?n msg)) \<le> maxParts s0 - 1"
    by simp
  from deliver_parts[OF d this] ne fresh len
  have m: "maxParts s1 = maxParts s0" and l: "length (parts s1) = ?n" by simp_all
  show "length (parts s1) = ?n" by (rule l)
  from more pos obtain p rest where dr: "drop ?n msg = p # rest"
    by (cases "drop ?n msg") simp_all
  have "msg = take ?n msg @ p # rest" using dr by (metis append_take_drop_id)
  then have ev: "events_of msg = events_of (take ?n msg) @ Signal partBegin # tl (events_of_part p) @ events_of rest"
    by (metis (no_types, lifting) events_of_def events_of_part_def concat.simps(2) concat_append
        list.map(2) list.sel(3) map_append append_Cons)
  from ne m l pos have "wrapInErrorChecker pf (Signal partBegin) s1 = Some (emitError TooManyParts s1)"
    by (simp add: wrapInErrorChecker_def listener_def onPartBegin_def)
  with d show "deliver pf (events_of msg) s0 = Some (emitError TooManyParts s1)"
    by (simp add: ev deliver_append deliver_errored)
qed

theorem maxParts_threshold_witness:
  "map_option (\<lambda>s. (length (parts s), emitted s))
     (deliver null_platform (events_of three_parts) (MultipartParser_new (Some 2) None None ''b''))
     = Some (1, [PartOut 0, ErrorOut TooManyParts])
   \<and> map_option emitted
     (deliver null_platform (events_of (take 1 three_parts)) (MultipartParser_new (Some 2) None None ''b''))
     = Some [PartOut 0]"
proof -
  let ?s0 = "MultipartParser_new (Some 2) None None ''b''"
  let ?d = "deliver null_platform (events_of (take 1 three_parts)) ?s0"
  have v: "map_option (\<lambda>s. (mp_error s, emitted s)) ?d = Some (False, [PartOut 0])"
    by code_simp
  then obtain s1 where s1: "?d = Some s1" "\<not> mp_error s1" "emitted s1 = [PartOut 0]"
    by auto
  have f: "parts ?s0 = []" "\<not> mp_error ?s0" "ErrorOut TooManyParts \<notin> set (emitted ?s0)"
    "1 \<le> maxParts ?s0" "maxParts ?s0 = 2"
    by (simp_all add: MultipartParser_new_def or_default_def)
  have l: "length three_parts = 3" by (simp add: three_parts_def)
  from maxParts_threshold[OF f(1-4), of three_parts null_platform] s1 f(5) l
  have "length (parts s1) = 1"
    "deliver null_platform (events_of three_parts) ?s0 = Some (emitError TooManyParts s1)"
    by simp_all
  with s1 show ?thesis by simp
qed

text \<open>
  C4, as it is stated, fails on a body with a line break, the form in which base64
  text is sent in MIME messages. The body \<open>QUJD\<close>, CR LF, \<open>REVG\<close> reaches
  \<open>_onPartData\<close> as one fragment of ten characters; its first eight characters are
  decoded as one prefix, in which the decoder skips the line break and so ends in the
  middle of a group. The bytes forwarded are \<open>ABCD\<close> and \<open>T\<close>, while the decoding of the
  whole body text is \<open>ABCDEF\<close>.
\<close>

theorem base64_line_break_counterexample:
  "map_option (\<lambda>s. (emitted s, map part_written (parts s)))
     (write_all null_platform [base64_message] (MultipartParser_new None None None ''b''))
     = Some ([PartOut 0], [[''ABCD'', ''T'']])
   \<and> base64_decode (toString_ascii (''QUJD'' @ CRLF @ ''REVG'')) = ''ABCDEF''"
  by code_simp

text \<open>
  C4 (incremental base64 decoding), amended. In a base64 part with no pending text,
  for every fragmentation \<open>bs\<close> of the body that stays within the size limits: every
  \<open>partData\<close> event appends its bytes, read as ASCII, to the pending text, decodes the
  longest prefix whose length is a multiple of 4, forwards the decoded bytes and keeps
  the rest (\<open>base64_stream\<close>, step by step \<open>base64_chunk\<close>); \<open>partEnd\<close> decodes and
  forwards what is pending and ends the part; no error is raised. When the body text
  is canonical, that is characters of the base64 alphabet followed by nothing but
  \<open>=\<close> padding, the bytes forwarded, concatenated, are the base64 decoding of the whole
  body text.
\<close>

theorem base64_incremental_decoding:
  assumes inv: "in_base64_part s [] n w"
    and l1: "n + int (length (concat bs)) \<le> maxPartSize s"
    and l2: "totalSize s + int (length (concat bs)) \<le> maxTotalSize s"
    and canon: "canonical (toString_ascii (concat bs))"
  shows "\<exists>s' part'.
           deliver pf (map (Data partData) bs @ [Signal partEnd]) s = Some s'
           \<and> curPart s' = Some part' \<and> part_ended part'
           \<and> part_written part'
               = w @ fst (base64_stream [] bs) @ [base64_decode (snd (base64_stream [] bs))]
           \<and> concat (part_written part')
               = concat w @ base64_decode (toString_ascii (concat bs))
           \<and> errors_of s' = errors_of s"
proof -
  from deliver_base64_body[OF inv l1 l2, of pf] obtain s1 where
    1: "deliver pf (map (Data partData) bs) s = Some s1"
    and i1: "in_base64_part s1 (snd (base64_stream [] bs)) (n + int (length (concat bs)))
               (w @ fst (base64_stream [] bs))"
    and e1: "errors_of s1 = errors_of s"
    by blast
  from onPartEnd_base64[OF i1, of pf] obtain s' part' where
    2: "wrapInErrorChecker pf (Signal partEnd) s1 = Some s'"
    and p: "curPart s' = Some part'" "part_ended part'"
      "part_written part' = (w @ fst (base64_stream [] bs)) @ [base64_decode (snd (base64_stream [] bs))]"
    and e2: "errors_of s' = errors_of s1"
    by blast
  from 1 2 have d: "deliver pf (map (Data partData) bs @ [Signal partEnd]) s = Some s'"
    by (simp add: deliver_append)
  from canon have "canonical ([] @ toString_ascii (concat bs))" by simp
  from base64_stream_decodes[OF this]
  have "concat (fst (base64_stream [] bs)) @ base64_decode (snd (base64_stream [] bs))
        = base64_decode (toString_ascii (concat bs))"
    by simp
  with p(3) have "concat (part_written part') = concat w @ base64_decode (toString_ascii (concat bs))"
    by simp
  with d p e1 e2 show ?thesis by simp
qed

theorem base64_incremental_decoding_witness:
  "\<exists>s' part'.
     deliver null_platform
       (base64_part_head @ map (Data partData) [''QUJ'', ''DREV'', ''G''] @ [Signal partEnd])
       (MultipartParser_new None None None ''b'') = Some s'
     \<and> curPart s' = Some part' \<and> part_ended part'
     \<and> part_written part' = [[], ''ABC'', ''DEF'', []]
     \<and> concat (part_written part') = ''ABCDEF''"
proof -
  let ?s0 = "MultipartParser_new None None None ''b''"
  let ?d = "deliver null_platform base64_part_head ?s0"
  let ?bs = "[''QUJ'', ''DREV'', ''G'']"
  have "map_option (\<lambda>s. (mp_error s, maxPartSize s, maxTotalSize s, totalSize s,
            map_option (\<lambda>c. (cps_tmp c, cps_partSize c)) (curPartState s),
            map (\<lambda>p. (part_transferEncoding p, part_ended p, part_written p)) (parts s))) ?d
      = Some (False, 10485760, 104857600, 0, Some (Some [], Some 0),
              [(Some ''base64'', False, [])])"
    by code_simp
  then obtain s c where s: "?d = Some s" "\<not> mp_error s"
    "maxPartSize s = 10485760" "maxTotalSize s = 104857600" "totalSize s = 0"
    "curPartState s = Some c" "cps_tmp c = Some []" "cps_partSize c = Some 0"
    "map (\<lambda>p. (part_transferEncoding p, part_ended p, part_written p)) (parts s)
       = [(Some ''base64'', False, [])]"
    by auto
  from s(9) obtain part where ps: "parts s = [part]" "part_transferEncoding part = Some ''base64''"
    "\<not> part_ended part" "part_written part = []"
    by auto
  from s ps have inv: "in_base64_part s [] 0 []"
    by (simp add: in_base64_part_def curPart_def)
  have c: "canonical (toString_ascii (concat ?bs))" by code_simp
  have st: "fst (base64_stream [] ?bs) = [[], ''ABC'', ''DEF'']"
    "base64_decode (snd (base64_stream [] ?bs)) = []"
    by code_simp+
  have l1: "0 + int (length (concat ?bs)) \<le> maxPartSize s"
    and l2: "totalSize s + int (length (concat ?bs)) \<le> maxTotalSize s"
    using s(3,4,5) by simp_all
  from base64_incremental_decoding[OF inv l1 l2 c, of null_platform]
  obtain s' part' where r:
    "deliver null_platform (map (Data partData) ?bs @ [Signal partEnd]) s = Some s'"
    "curPart s' = Some part'" "part_ended part'"
    "part_written part' = [] @ fst (base64_stream [] ?bs) @ [base64_decode (snd (base64_stream [] ?bs))]"
    by blast
  from r(4) have w: "part_written part' = [[], ''ABC'', ''DEF'', []]" unfolding st by simp
  from s(1) r(1) have "deliver null_platform (base64_part_head @ map (Data partData) ?bs @ [Signal partEnd]) ?s0
      = Some s'"
    using deliver_append[of null_platform base64_part_head "map (Data partData) ?bs @ [Signal partEnd]" ?s0]
    by simp
  with r(2,3) w show ?thesis by simp
qed

text \<open>
  C5 (timing of the size limits). For a \<open>partData\<close> fragment arriving in a part whose
  size so far is \<open>n\<close>: the length of the fragment is added to the part size, and the
  session fails with \<open>PartTooLarge\<close> at once, forwarding nothing, when the sum exceeds
  \<open>maxPartSize\<close>; otherwise the length is added to the total size, and the session
  fails with \<open>MessageTooLarge\<close> at once when that sum exceeds \<open>maxTotalSize\<close>; otherwise
  the fragment of a pass-through part is forwarded, in a state where both counts
  already include it: it is written to the part when the part has not ended, and
  refused by the stream of a part that has ended (\<open>write after end\<close>, a session error
  for a field or an object part). When both limits are exceeded by the same fragment
  the error is \<open>PartTooLarge\<close>.
\<close>

theorem size_limit_timing:
  assumes c: "curPartState s = Some c" and n: "cps_partSize c = Some n"
  shows "let n' = n + int (length chunk);
             t' = totalSize s + int (length chunk);
             s1 = s\<lparr>curPartState := Some (c\<lparr>cps_partSize := Some n'\<rparr>)\<rparr>;
             s2 = s1\<lparr>totalSize := t'\<rparr>
         in (n' > maxPartSize s \<longrightarrow> onPartData chunk s = Some (emitError PartTooLarge s1))
          \<and> (n' \<le> maxPartSize s \<and> t' > maxTotalSize s \<longrightarrow>
               onPartData chunk s = Some (emitError MessageTooLarge s2))
          \<and> (n' \<le> maxPartSize s \<and> t' \<le> maxTotalSize s \<longrightarrow>
               (\<forall>part. curPart s = Some part
                        \<and> part_transferEncoding part \<in> {Some ''binary'', Some ''7bit'', Some ''8bit''}
                  \<longrightarrow> onPartData chunk s =
                        Some (if part_ended part then part_error write_after_end part s2
                              else set_curPart (part\<lparr>part_written := part_written part @ [chunk]\<rparr>) s2)))"
  using c n by (auto simp: onPartData_def Let_def curPart_def writePart_def Part_write_def)

theorem size_limit_timing_witness:
  "map_option emitted
     (deliver null_platform [Signal partBegin, Signal headersEnd, Data partData ''abc'']
        (MultipartParser_new None (Some 2) None ''b''))
   = Some [PartOut 0, ErrorOut PartTooLarge]
   \<and> map_option (\<lambda>s. (emitted s, map part_written (parts s), totalSize s))
     (deliver null_platform [Signal partBegin, Signal headersEnd, Data partData ''ab'']
        (MultipartParser_new None (Some 2) None ''b''))
   = Some ([PartOut 0], [[''ab'']], 2)
   \<and> map_option emitted
     (write_all null_platform [message_data] (MultipartParser_new None (Some 2) None ''b''))
   = Some [PartOut 0, ErrorOut PartTooLarge]"
proof -
  have pipeline: "map_option emitted
     (write_all null_platform [message_data] (MultipartParser_new None (Some 2) None ''b''))
   = Some [PartOut 0, ErrorOut PartTooLarge]"
    by code_simp
  let ?s0 = "MultipartParser_new None (Some 2) None ''b''"
  let ?d = "deliver null_platform [Signal partBegin, Signal headersEnd] ?s0"
  have v: "map_option (\<lambda>s. (mp_error s, emitted s, maxPartSize s, map_option cps_partSize (curPartState s),
              totalSize s, maxTotalSize s,
              map (\<lambda>p. (part_transferEncoding p, part_ended p, part_written p)) (parts s))) ?d
      = Some (False, [PartOut 0], 2, Some (Some 0), 0, 100 * 1024 * 1024, [(Some ''binary'', False, [])])"
    by code_simp
  then obtain s c where s: "?d = Some s" "\<not> mp_error s" "emitted s = [PartOut 0]"
    "maxPartSize s = 2" "curPartState s = Some c" "cps_partSize c = Some 0"
    "totalSize s = 0" "maxTotalSize s = 100 * 1024 * 1024"
    "map (\<lambda>p. (part_transferEncoding p, part_ended p, part_written p)) (parts s)
       = [(Some ''binary'', False, [])]"
    by auto
  from s(9) obtain part where ps: "parts s = [part]" "part_transferEncoding part = Some ''binary''"
    "\<not> part_ended part" "part_written part = []"
    by auto
  then have cp: "curPart s = Some part" by (simp add: curPart_def)
  from size_limit_timing[OF s(5,6), of "''abc''"] s(4)
  have "onPartData ''abc'' s
        = Some (emitError PartTooLarge (s\<lparr>curPartState := Some (c\<lparr>cps_partSize := Some 3\<rparr>)\<rparr>))"
    by (simp add: Let_def)
  with s(2) have a: "wrapInErrorChecker null_platform (Data partData ''abc'') s
        = Some (emitError PartTooLarge (s\<lparr>curPartState := Some (c\<lparr>cps_partSize := Some 3\<rparr>)\<rparr>))"
    by (simp add: wrapInErrorChecker_def listener_def)
  from size_limit_timing[OF s(5,6), of "''ab''"] s(4,7,8) cp ps
  have "onPartData ''ab'' s
        = Some (set_curPart (part\<lparr>part_written := [''ab'']\<rparr>)
                 (s\<lparr>curPartState := Some (c\<lparr>cps_partSize := Some 2\<rparr>), totalSize := 2\<rparr>))"
    by (simp add: Let_def)
  with s(2) have b: "wrapInErrorChecker null_platform (Data partData ''ab'') s
        = Some (set_curPart (part\<lparr>part_written := [''ab'']\<rparr>)
                 (s\<lparr>curPartState := Some (c\<lparr>cps_partSize := Some 2\<rparr>), totalSize := 2\<rparr>))"
    by (simp add: wrapInErrorChecker_def listener_def)
  have da: "deliver null_platform [Signal partBegin, Signal headersEnd, Data partData ''abc''] ?s0
      = (case ?d of None \<Rightarrow> None | Some s' \<Rightarrow> deliver null_platform [Data partData ''abc''] s')"
    using deliver_append[of null_platform "[Signal partBegin, Signal headersEnd]" "[Data partData ''abc'']" ?s0]
    by simp
  have db: "deliver null_platform [Signal partBegin, Signal headersEnd, Data partData ''ab''] ?s0
      = (case ?d of None \<Rightarrow> None | Some s' \<Rightarrow> deliver null_platform [Data partData ''ab''] s')"
    using deliver_append[of null_platform "[Signal partBegin, Signal headersEnd]" "[Data partData ''ab'']" ?s0]
    by simp
  from a s have 1: "map_option emitted
     (deliver null_platform [Signal partBegin, Signal headersEnd, Data partData ''abc''] ?s0)
     = Some [PartOut 0, ErrorOut PartTooLarge]"
    unfolding da by simp
  from b s ps have 2: "map_option (\<lambda>s. (emitted s, map part_written (parts s), totalSize s))
     (deliver null_platform [Signal partBegin, Signal headersEnd, Data partData ''ab''] ?s0)
     = Some ([PartOut 0], [[''ab'']], 2)"
    unfolding db by simp
  from 1 2 pipeline show ?thesis by (intro conjI)
qed

text \<open>
  C6 (output of the encoder). The claim asks for a \<open>Content-ID\<close> header, the content id
  in angle brackets, for a part whose content id is set. The code reads the content id
  as \<open>part.id\<close>, a property that lib/part.js does not define (its accessor is
  \<open>contentId\<close>), so that the test \<open>IS_DEFINED(part.id)\<close> never holds. A stream part
  added with the content id \<open>cid\<close> keeps that content id, and is written with its
  \<open>Content-Disposition\<close> and \<open>Content-Type\<close> headers, its content and the boundary
  lines as the claim says, but without a \<open>Content-ID\<close> header.
\<close>

theorem content_id_header_missing:
  "map_option part_contentId (addStreamPart stream_part_with_id) = Some (Some ''cid'')
   \<and> map_option (\<lambda>p. setup_output ''B'' [p]) (addStreamPart stream_part_with_id)
     = Some (''--B'' @ CRLF
             @ ''Content-Disposition: form-data; name='' @ [CHR 0x22] @ ''n'' @ [CHR 0x22] @ CRLF
             @ ''Content-Type: text/plain'' @ CRLF
             @ CRLF @ ''hello'' @ CRLF @ ''--B--'' @ CRLF)"
  by code_simp

text \<open>
  C7 (truncated input). The claim asks that a decode session whose input ends before
  the end state raises the parse error for an unexpected end of the message, and does
  not complete. The check exists, in the \<open>finish\<close> handler of the byte parser
  (\<open>on_finish\<close>, see \<open>byte_parser_end_of_input\<close>), but the decoder never ends its byte parser
  and listens neither to its \<open>finish\<close> nor to its \<open>error\<close>. Given the bare bytes
  \<open>--boundary\<close> and then the end of the input, the decoder emits \<open>finish\<close> and nothing
  else, with its byte parser still waiting in the state \<open>BOUNDARY\<close> and no error flag;
  the byte parser used on its own raises the error for the same input.
\<close>

theorem truncated_input_undetected:
  "map_sum id (\<lambda>s. (emitted s, map_option state (byteParser s), mp_error s))
     (decode null_platform [''--boundary''] (MultipartParser_new None None None ''boundary''))
     = Inr ([FinishOut], Some BOUNDARY, False)
   \<and> (events (parse ''boundary'' [''--boundary'']), errors (parse ''boundary'' [''--boundary'']))
     = ([], [ParseError msg_unexpected_end])"
proof -
  have 1: "map_sum id (\<lambda>s. (emitted s, map_option state (byteParser s), mp_error s))
     (decode null_platform [''--boundary''] (MultipartParser_new None None None ''boundary''))
     = Inr ([FinishOut], Some BOUNDARY, False)"
    by code_simp
  have 2: "(events (parse ''boundary'' [''--boundary'']), errors (parse ''boundary'' [''--boundary'']))
     = ([], [ParseError msg_unexpected_end])"
    by code_simp
  from 1 2 show ?thesis by (rule conjI)
qed

text \<open>
  C8 (JSON fallback). For the current part, of kind \<open>OBJECT\<close> and not ended, in a
  session without an error: \<open>partEnd\<close> ends the part, with nothing more for a
  pass-through encoding and with the decoded pending text for base64, and emits
  nothing; the \<open>body\<close> is then what has been written to the part. In the turn that
  follows, the \<open>end\<close> listener of the part reads the concatenated body as text: the
  value of the part is what \<open>JSON.parse\<close> gives for that text and, when \<open>JSON.parse\<close>
  fails, the empty object. The part is then announced with a \<open>part\<close> event, the last
  event of that turn and the only one added to what the turn emits without this
  part; no error is raised.
\<close>

theorem json_fallback:
  assumes p: "curPart s = Some part" and t: "part_type part = OBJECT"
    and e: "\<not> part_ended part" and ne: "\<not> mp_error s"
    and enc: "part_transferEncoding part \<in> {Some ''binary'', Some ''7bit'', Some ''8bit''}
                \<and> body = part_written part
              \<or> part_transferEncoding part = Some ''base64''
                \<and> (\<exists>c. curPartState s = Some c \<and> cps_tmp c = Some tmp)
                \<and> body = part_written part @ [base64_decode tmp]"
  shows "\<exists>s1. deliver pf [Signal partEnd] s = Some s1
           \<and> emitted s1 = emitted s \<and> \<not> mp_error s1
           \<and> parts (tick pf s1) ! (length (parts s) - 1)
               = part\<lparr>part_written := body, part_ended := True,
                       part_value := Some (case JSON_parse pf (concat body) of
                                             Some v \<Rightarrow> v
                                           | None \<Rightarrow> JObject [])\<rparr>
           \<and> emitted (tick pf s1) = emitted (tick pf s) @ [PartOut (length (parts s) - 1)]
           \<and> \<not> mp_error (tick pf s1)"
proof -
  let ?i = "length (parts s) - 1"
  let ?part' = "part\<lparr>part_written := body, part_ended := True\<rparr>"
  let ?s1 = "(set_curPart ?part' s)\<lparr>deferred := deferred s @ [?i]\<rparr>"
  let ?run = "\<lambda>s ds. foldl (\<lambda>s' j. end_listener pf j s') s ds"
  let ?Y = "?run (?s1\<lparr>deferred := []\<rparr>) (deferred s)"
  let ?u = "\<lambda>p. p\<lparr>part_value := None\<rparr>"
  from p have ps: "parts s \<noteq> []" "last (parts s) = part" by (auto dest: curPart_Some)
  from enc p t e have "onPartEnd s = Some ?s1"
    by (auto simp: onPartEnd_def endPart_def Part_end_def Part_write_def Let_def)
  with ne have d: "deliver pf [Signal partEnd] s = Some ?s1"
    by (simp add: wrapInErrorChecker_def listener_def)
  have tk: "tick pf ?s1 = end_listener pf ?i ?Y"
    by (rule tick_snoc) simp
  have parts1: "parts ?s1 = butlast (parts s) @ [?part']" by simp
  from run_listeners[of pf "?s1\<lparr>deferred := []\<rparr>" "deferred s"]
  have Y: "map ?u (parts ?Y) = map ?u (butlast (parts s) @ [?part'])"
    "mp_error ?Y = mp_error s"
    "emitted ?Y = emitted s @ announced (map part_type (butlast (parts s) @ [?part'])) (deferred s)"
    by simp_all
  from Y(1) have len: "length (parts ?Y) = length (parts s)"
    using ps(1) by (auto dest!: arg_cong[where f = length])
  with ps(1) have il: "?i < length (parts ?Y)" by (cases "parts s") simp_all
  from Y(1) il len have "map ?u (parts ?Y) ! ?i = map ?u (butlast (parts s) @ [?part']) ! ?i"
    by simp
  with il len have q: "?u (parts ?Y ! ?i) = ?u ?part'"
    by (simp add: nth_append)
  define q where "q = parts ?Y ! ?i"
  from q have qu: "?u q = ?u ?part'" by (simp add: q_def)
  then have "part_type (?u q) = part_type (?u ?part')" "part_written (?u q) = part_written (?u ?part')"
    by simp_all
  with t have qt: "part_type q = OBJECT" and qw: "part_written q = body" by simp_all
  from qu have "(?u q)\<lparr>part_value := Some (case JSON_parse pf (concat body) of Some v \<Rightarrow> v | None \<Rightarrow> JObject [])\<rparr>
      = (?u ?part')\<lparr>part_value := Some (case JSON_parse pf (concat body) of Some v \<Rightarrow> v | None \<Rightarrow> JObject [])\<rparr>"
    by (simp only:)
  then have qv: "q\<lparr>part_value := Some (case JSON_parse pf (concat body) of Some v \<Rightarrow> v | None \<Rightarrow> JObject [])\<rparr>
      = ?part'\<lparr>part_value := Some (case JSON_parse pf (concat body) of Some v \<Rightarrow> v | None \<Rightarrow> JObject [])\<rparr>"
    by simp
  from qt have nst: "part_type (parts ?Y ! ?i) \<noteq> STREAM" by (simp add: q_def)
  from il nst have el: "end_listener pf ?i ?Y
      = ?Y\<lparr>parts := (parts ?Y)[?i := handlePart_end pf q], emitted := emitted ?Y @ [PartOut ?i]\<rparr>"
    by (simp add: end_listener_def q_def)
  from handlePart_end_OBJECT[OF qt, of pf] qw qv
  have hv: "handlePart_end pf q
      = ?part'\<lparr>part_value := Some (case JSON_parse pf (concat body) of Some v \<Rightarrow> v | None \<Rightarrow> JObject [])\<rparr>"
    by simp
  have val: "parts (tick pf ?s1) ! ?i
      = part\<lparr>part_written := body, part_ended := True,
              part_value := Some (case JSON_parse pf (concat body) of Some v \<Rightarrow> v | None \<Rightarrow> JObject [])\<rparr>"
    unfolding tk el using il by (simp add: hv)
  from ps t have ty: "map part_type (butlast (parts s) @ [?part']) = map part_type (parts s)"
    by (cases "parts s" rule: rev_cases) simp_all
  from run_listeners[of pf "s\<lparr>deferred := []\<rparr>" "deferred s"]
  have "emitted (tick pf s) = emitted s @ announced (map part_type (parts s)) (deferred s)"
    by (simp add: tick_def)
  with Y(3) ty have em: "emitted (tick pf ?s1) = emitted (tick pf s) @ [PartOut ?i]"
    unfolding tk el by simp
  from Y(2) ne have er: "\<not> mp_error (tick pf ?s1)"
    unfolding tk el by simp
  from d val em er ne show ?thesis by simp
qed

theorem json_fallback_witness:
  "map_option (\<lambda>s1. (emitted (tick sample_platform s1), part_value (parts (tick sample_platform s1) ! 0)))
     (deliver sample_platform (object_part_head @ [Data partData ''{bad'', Signal partEnd])
        (MultipartParser_new None None None ''b''))
   = Some ([PartOut 0], Some (JObject []))
   \<and> map_option (\<lambda>s1. (emitted (tick sample_platform s1), part_value (parts (tick sample_platform s1) ! 0)))
     (deliver sample_platform (object_part_head @ [Data partData ''[1]'', Signal partEnd])
        (MultipartParser_new None None None ''b''))
   = Some ([PartOut 0], Some (JArray [JNumber 1]))"
proof -
  let ?pf = sample_platform
  let ?s0 = "MultipartParser_new None None None ''b''"
  let ?proj = "\<lambda>s. (mp_error s, emitted s, deferred s,
     map (\<lambda>p. (part_type p, part_ended p, part_transferEncoding p, part_written p)) (parts s))"
  let ?out = "\<lambda>s1. (emitted (tick ?pf s1), part_value (parts (tick ?pf s1) ! 0))"
  have one: "map_option ?out (deliver ?pf (object_part_head @ [Data partData b, Signal partEnd]) ?s0)
       = Some ([PartOut 0], Some (case JSON_parse ?pf b of Some v \<Rightarrow> v | None \<Rightarrow> JObject []))"
    if a: "map_option ?proj (deliver ?pf (object_part_head @ [Data partData b]) ?s0)
       = Some (False, [], [], [(OBJECT, False, Some ''binary'', [b])])" for b
  proof -
    from a obtain s where s: "deliver ?pf (object_part_head @ [Data partData b]) ?s0 = Some s"
      "\<not> mp_error s" "emitted s = []" "deferred s = []"
      "map (\<lambda>p. (part_type p, part_ended p, part_transferEncoding p, part_written p)) (parts s)
         = [(OBJECT, False, Some ''binary'', [b])]"
      by auto
    from s(5) obtain part where p: "parts s = [part]" "part_type part = OBJECT"
      "\<not> part_ended part" "part_transferEncoding part = Some ''binary''" "part_written part = [b]"
      by auto
    then have cp: "curPart s = Some part" by (simp add: curPart_def)
    from p have enc: "part_transferEncoding part \<in> {Some ''binary'', Some ''7bit'', Some ''8bit''}
                \<and> [b] = part_written part
              \<or> part_transferEncoding part = Some ''base64''
                \<and> (\<exists>c. curPartState s = Some c \<and> cps_tmp c = Some [])
                \<and> [b] = part_written part @ [base64_decode []]"
      by simp
    from s(3,4) have ts: "emitted (tick ?pf s) = []" by (simp add: tick_def)
    from json_fallback[OF cp p(2,3) s(2) enc, of ?pf] p(1) ts
    obtain s1 where s1: "deliver ?pf [Signal partEnd] s = Some s1"
      "parts (tick ?pf s1) ! 0
         = part\<lparr>part_written := [b], part_ended := True,
                 part_value := Some (case JSON_parse ?pf (concat [b]) of
                                       Some v \<Rightarrow> v | None \<Rightarrow> JObject [])\<rparr>"
      "emitted (tick ?pf s1) = [PartOut 0]"
      by auto
    have "deliver ?pf (object_part_head @ [Data partData b, Signal partEnd]) ?s0
        = (case deliver ?pf (object_part_head @ [Data partData b]) ?s0 of
             None \<Rightarrow> None | Some s' \<Rightarrow> deliver ?pf [Signal partEnd] s')"
      using deliver_append[of ?pf "object_part_head @ [Data partData b]" "[Signal partEnd]" ?s0]
      by simp
    with s(1) s1 show ?thesis by simp
  qed
  have a: "map_option ?proj (deliver ?pf (object_part_head @ [Data partData ''{bad'']) ?s0)
       = Some (False, [], [], [(OBJECT, False, Some ''binary'', [''{bad''])])"
    by code_simp
  have b: "map_option ?proj (deliver ?pf (object_part_head @ [Data partData ''[1]'']) ?s0)
       = Some (False, [], [], [(OBJECT, False, Some ''binary'', [''[1]''])])"
    by code_simp
  from one[OF a] one[OF b] show ?thesis
    by (simp add: sample_platform_def)
qed

text \<open>
  C9 (closed error state). The claim asks that no \<open>part\<close> event follows a fatal error.
  The listeners of the byte parser are guarded by the error flag, and so is \<open>_write\<close>
  (\<open>errored_parser_drops_chunks\<close>), but the \<open>end\<close> listener that \<open>handlePart\<close> installs on a
  field or an object part is not, and it runs in a later turn than the call that ends
  the part. With \<open>maxParts\<close> 2 and a message of two object parts in one chunk, the
  second \<open>partBegin\<close> raises \<open>TooManyParts\<close> during the call, and the first part, ended
  before that, is announced afterwards: the session emits the error and then a \<open>part\<close>
  event. Moreover a parse error of the byte parser is not a fatal error of the session
  at all: no listener takes it, and the call that writes the chunk throws it.
\<close>

theorem part_event_after_fatal_error:
  "map_sum id (\<lambda>s. (emitted s, mp_error s, map part_value (parts s)))
     (session sample_platform [two_object_parts] (MultipartParser_new (Some 2) None None ''b''))
     = Inr ([ErrorOut TooManyParts, PartOut 0], True, [Some (JArray [JNumber 1])])
   \<and> map_sum id emitted
     (writeChunk sample_platform two_object_parts (MultipartParser_new (Some 2) None None ''b''))
     = Inr [ErrorOut TooManyParts]
   \<and> map_sum id emitted
     (writeChunk null_platform message_size_header (MultipartParser_new None None None ''b''))
     = Inl (UnhandledError (ParseError msg_invalid_name))"
proof -
  have 1: "map_sum id (\<lambda>s. (emitted s, mp_error s, map part_value (parts s)))
     (session sample_platform [two_object_parts] (MultipartParser_new (Some 2) None None ''b''))
     = Inr ([ErrorOut TooManyParts, PartOut 0], True, [Some (JArray [JNumber 1])])"
    by code_simp
  have 2: "map_sum id emitted
     (writeChunk sample_platform two_object_parts (MultipartParser_new (Some 2) None None ''b''))
     = Inr [ErrorOut TooManyParts]"
    by code_simp
  have 3: "map_sum id emitted
     (writeChunk null_platform message_size_header (MultipartParser_new None None None ''b''))
     = Inl (UnhandledError (ParseError msg_invalid_name))"
    by code_simp
  from 1 2 3 show ?thesis by simp
qed

text \<open>
  C10 (trailing bytes after the final boundary). The claim asks that a message followed
  by trailing bytes gives the same events as the message alone. For the part with an
  empty body of \<open>message_empty_body\<close> the code does not do that. The \<open>partData\<close> marker set at
  the first byte of the delimiter is never cleared, since the span before the
  delimiter is empty; when the chunk ends with the message, the closing code of
  \<open>_transform\<close> emits the delimiter as part data after \<open>partEnd\<close>; with a trailing byte the
  end state returns before that closing code runs. The defect is the one of C1.
\<close>

theorem trailing_bytes_change_events:
  "events (parse ''b'' [message_empty_body]) =
     [Signal partBegin, Data headerName ''A'', Data headerValue ''v'', Signal headersEnd,
      Signal partEnd, Data partData (CRLF @ ''--b--''), Signal endOfMessage]
   \<and> events (parse ''b'' [message_empty_body @ ''x'']) =
     [Signal partBegin, Data headerName ''A'', Data headerValue ''v'', Signal headersEnd,
      Signal partEnd, Signal endOfMessage]"
  by code_simp

end
